theory Spec2Isabelle
  imports
    Complex_Main
    "HOL-Library.FSet"
    "HOL-Library.Multiset"
    "HOL-Library.Char_ord"
    "HOL-Library.List_Lexorder"
begin

section \<open>Strings as Python has them\<close>

text \<open>
  Python strings are modelled as \<open>string\<close>; comparison of strings (used by \<open>sorted\<close>)
  is the lexicographic order on code points, which is the order of \<open>List_Lexorder\<close> over
  \<open>Char_ord\<close>.
\<close>

abbreviation dquote :: char where
  "dquote \<equiv> CHR 0x22"

abbreviation newline :: char where
  "newline \<equiv> CHR 0x0A"

definition is_space :: "char \<Rightarrow> bool" where
  \<comment> \<open>\<open>str.isspace\<close> on one character (code points below 256)\<close>
  "is_space c \<longleftrightarrow>
     c \<in> set [CHR 0x09, CHR 0x0A, CHR 0x0B, CHR 0x0C, CHR 0x0D,
               CHR 0x1C, CHR 0x1D, CHR 0x1E, CHR 0x1F, CHR 0x20, CHR 0x85, CHR 0xA0]"

definition strip :: "string \<Rightarrow> string" where
  \<comment> \<open>\<open>s.strip()\<close>\<close>
  "strip s = rev (dropWhile is_space (rev (dropWhile is_space s)))"

fun split_ws :: "string \<Rightarrow> string list" where
  \<comment> \<open>\<open>s.split()\<close>: the maximal runs of non-whitespace characters\<close>
  "split_ws [] = []"
| "split_ws (c # cs) =
     (if is_space c then split_ws cs
      else if cs = [] \<or> is_space (hd cs) then [c] # split_ws cs
      else (case split_ws cs of [] \<Rightarrow> [[c]] | w # ws \<Rightarrow> (c # w) # ws))"

fun join :: "string \<Rightarrow> string list \<Rightarrow> string" where
  \<comment> \<open>\<open>sep.join(xs)\<close>\<close>
  "join sep [] = []"
| "join sep [x] = x"
| "join sep (x # y # ys) = x @ sep @ join sep (y # ys)"

definition startswith :: "string \<Rightarrow> string \<Rightarrow> bool" where
  "startswith s p \<longleftrightarrow> take (length p) s = p"

definition endswith :: "string \<Rightarrow> string \<Rightarrow> bool" where
  "endswith s p \<longleftrightarrow> length p \<le> length s \<and> drop (length s - length p) s = p"

fun contains :: "string \<Rightarrow> string \<Rightarrow> bool" where
  \<comment> \<open>\<open>p in s\<close> for strings: \<open>p\<close> occurs in \<open>s\<close> as a contiguous substring\<close>
  "contains [] p = (p = [])"
| "contains (c # cs) p = (startswith (c # cs) p \<or> contains cs p)"

fun find_str :: "string \<Rightarrow> string \<Rightarrow> nat option" where
  \<comment> \<open>\<open>s.find(p)\<close>: the lowest index where \<open>p\<close> occurs, \<open>None\<close> for Python's \<open>-1\<close>\<close>
  "find_str [] p = (if p = [] then Some 0 else None)"
| "find_str (c # cs) p =
     (if startswith (c # cs) p then Some 0
      else (case find_str cs p of None \<Rightarrow> None | Some i \<Rightarrow> Some (Suc i)))"

definition upper_char :: "char \<Rightarrow> char" where
  \<comment> \<open>\<open>str.upper\<close> on the ASCII letters; no other character of the 8-bit range is
      mapped to one of the letters \<open>Y O U R\<close> or to the underscore\<close>
  "upper_char c =
     (if CHR ''a'' \<le> c \<and> c \<le> CHR ''z'' then char_of (of_char c - (32::nat)) else c)"

definition upper :: "string \<Rightarrow> string" where
  "upper s = map upper_char s"

definition lower_char :: "char \<Rightarrow> char" where
  "lower_char c =
     (if CHR ''A'' \<le> c \<and> c \<le> CHR ''Z'' then char_of (of_char c + (32::nat)) else c)"

definition lower :: "string \<Rightarrow> string" where
  "lower s = map lower_char s"

definition digit_char :: "nat \<Rightarrow> char" where
  "digit_char d = char_of (48 + d)"

fun digits_of :: "nat \<Rightarrow> nat \<Rightarrow> string" where
  \<comment> \<open>decimal digits of \<open>n\<close>, most significant first; the first argument bounds the
      number of digits\<close>
  "digits_of 0 n = []"
| "digits_of (Suc k) n =
     (if n < 10 then [digit_char n] else digits_of k (n div 10) @ [digit_char (n mod 10)])"

definition str_of_nat :: "nat \<Rightarrow> string" where
  \<comment> \<open>\<open>str(n)\<close> for a non-negative integer\<close>
  "str_of_nat n = digits_of (Suc n) n"

section \<open>The checkpoint (utils/file_manager.py)\<close>

record Checkpoint =
  last_scan_time :: "string option"
  scanned_shas :: "string fset"
  processed_queries :: "string fset"
  wait_send_balancer :: "string fset"
  wait_send_gpt_load :: "string fset"

definition empty_checkpoint :: Checkpoint where
  \<comment> \<open>\<open>Checkpoint()\<close> with the dataclass defaults\<close>
  "empty_checkpoint =
     \<lparr>last_scan_time = None, scanned_shas = {||}, processed_queries = {||},
      wait_send_balancer = {||}, wait_send_gpt_load = {||}\<rparr>"

definition truthy :: "string option \<Rightarrow> bool" where
  \<comment> \<open>truth value of an optional string: \<open>None\<close> and the empty string are false\<close>
  "truthy v \<longleftrightarrow> (case v of None \<Rightarrow> False | Some s \<Rightarrow> s \<noteq> [])"

definition add_scanned_sha :: "string option \<Rightarrow> Checkpoint \<Rightarrow> Checkpoint" where
  \<comment> \<open>the caller passes \<open>item.get("sha")\<close>, which may be \<open>None\<close>\<close>
  "add_scanned_sha sha cp =
     (case sha of
        None \<Rightarrow> cp
      | Some s \<Rightarrow> if s \<noteq> [] then cp\<lparr>scanned_shas := finsert s (scanned_shas cp)\<rparr> else cp)"

definition add_processed_query :: "string \<Rightarrow> Checkpoint \<Rightarrow> Checkpoint" where
  "add_processed_query query cp =
     (if query \<noteq> [] then cp\<lparr>processed_queries := finsert query (processed_queries cp)\<rparr>
      else cp)"

definition update_scan_time :: "string \<Rightarrow> Checkpoint \<Rightarrow> Checkpoint" where
  \<comment> \<open>the first argument is \<open>datetime.utcnow().isoformat()\<close>\<close>
  "update_scan_time now_iso cp = cp\<lparr>last_scan_time := Some now_iso\<rparr>"

definition list_of_set :: "string fset \<Rightarrow> string list" where
  \<comment> \<open>\<open>list(s)\<close> of a set: Python fixes no order; the model enumerates in sorted order\<close>
  "list_of_set s = sorted_list_of_fset s"

section \<open>Query normalisation (app/hajimi_king.py)\<close>

function tokenize :: "string \<Rightarrow> string list" where
  \<comment> \<open>the \<open>while i < len(query)\<close> loop of \<open>normalize_query\<close>, reading from position \<open>i\<close>\<close>
  "tokenize [] = []"
| "tokenize (c # cs) =
     (if c = dquote then
        (if dquote \<in> set cs
         then (c # takeWhile (\<lambda>x. x \<noteq> dquote) cs @ [dquote])
              # tokenize (tl (dropWhile (\<lambda>x. x \<noteq> dquote) cs))
         else [c] # tokenize cs)
      else if c = CHR 0x20 then tokenize cs
      else (c # takeWhile (\<lambda>x. x \<noteq> CHR 0x20) cs)
           # tokenize (dropWhile (\<lambda>x. x \<noteq> CHR 0x20) cs))"
  by pat_completeness auto
termination
proof (relation "measure length")
  fix c :: char and cs :: string
  have "length (dropWhile (\<lambda>x. x \<noteq> dquote) cs) \<le> length cs"
    by (rule length_dropWhile_le)
  then show "(tl (dropWhile (\<lambda>x. x \<noteq> dquote) cs), c # cs) \<in> measure length"
    by simp
  have "length (dropWhile (\<lambda>x. x \<noteq> CHR 0x20) cs) \<le> length cs"
    by (rule length_dropWhile_le)
  then show "(dropWhile (\<lambda>x. x \<noteq> CHR 0x20) cs, c # cs) \<in> measure length"
    by simp
qed simp_all

datatype bucket = Quoted | Language | Filename | Path | Other | Dropped

definition bucket_of :: "string \<Rightarrow> bucket" where
  \<comment> \<open>the \<open>if/elif\<close> chain of the second loop of \<open>normalize_query\<close>\<close>
  "bucket_of part =
     (if startswith part [dquote] \<and> endswith part [dquote] then Quoted
      else if startswith part ''language:'' then Language
      else if startswith part ''filename:'' then Filename
      else if startswith part ''path:'' then Path
      else if strip part \<noteq> [] then Other
      else Dropped)"

definition parts_in :: "bucket \<Rightarrow> string list \<Rightarrow> string list" where
  \<comment> \<open>the parts appended to one of the five lists, in the order met\<close>
  "parts_in b parts = filter (\<lambda>p. bucket_of p = b) parts"

definition normalize_query :: "string \<Rightarrow> string" where
  "normalize_query query0 =
     (let query = join '' '' (split_ws query0);
          parts = tokenize query;
          normalized_parts =
            sort (parts_in Quoted parts) @ sort (parts_in Other parts)
            @ sort (parts_in Language parts) @ sort (parts_in Filename parts)
            @ sort (parts_in Path parts)
      in join '' '' normalized_parts)"

section \<open>Credential extraction (app/hajimi_king.py)\<close>

definition key_char :: "char \<Rightarrow> bool" where
  \<comment> \<open>the character class \<open>[A-Za-z0-9\-_]\<close>\<close>
  "key_char c \<longleftrightarrow>
     (CHR ''A'' \<le> c \<and> c \<le> CHR ''Z'') \<or> (CHR ''a'' \<le> c \<and> c \<le> CHR ''z'')
     \<or> (CHR ''0'' \<le> c \<and> c \<le> CHR ''9'') \<or> c = CHR ''-'' \<or> c = CHR ''_''"

definition match_here :: "string \<Rightarrow> bool" where
  \<comment> \<open>the pattern \<open>AIzaSy[A-Za-z0-9\-_]{33}\<close> matches at the start of the string\<close>
  "match_here s \<longleftrightarrow>
     startswith s ''AIzaSy'' \<and> 39 \<le> length s \<and> list_all key_char (take 33 (drop 6 s))"

fun extract_keys_from_content :: "string \<Rightarrow> string list" where
  \<comment> \<open>\<open>re.findall\<close>: the non-overlapping matches, scanning from the left\<close>
  "extract_keys_from_content [] = []"
| "extract_keys_from_content (c # cs) =
     (if match_here (c # cs) then take 39 (c # cs) # extract_keys_from_content (drop 38 cs)
      else extract_keys_from_content cs)"

definition is_placeholder :: "string \<Rightarrow> string \<Rightarrow> bool" where
  \<comment> \<open>the test of the filter loop of \<open>process_item\<close> that skips a key\<close>
  "is_placeholder content key =
     (case find_str content key of
        None \<Rightarrow> False
      | Some context_index \<Rightarrow>
          (let snippet = take 45 (drop context_index content)
           in contains snippet ''...'' \<or> contains (upper snippet) ''YOUR_''))"

definition candidate_keys :: "string \<Rightarrow> string list" where
  \<comment> \<open>\<open>process_item\<close> from \<open>extract_keys_from_content\<close> to \<open>list(set(filtered_keys))\<close>\<close>
  "candidate_keys content =
     (let keys = extract_keys_from_content content;
          filtered_keys = filter (\<lambda>key. \<not> is_placeholder content key) keys
      in list_of_set (fset_of_list filtered_keys))"

section \<open>The skip filter (app/hajimi_king.py)\<close>

text \<open>
  A search item is the dictionary the search client returns; the fields read by the program
  are its \<open>sha\<close> and \<open>repository.pushed_at\<close> (both read with \<open>get\<close>, so possibly absent),
  its \<open>path\<close>, its \<open>html_url\<close> and \<open>repository.full_name\<close>.

  The standard library's date functions are parameters of the model: \<open>fromisoformat\<close> and
  \<open>strptime\<close> return \<open>None\<close> where Python raises \<open>ValueError\<close>. A \<open>datetime\<close> is a number of
  microseconds since the first instant of year 1, naive or with a time zone; comparing a
  naive with an aware one raises \<open>TypeError\<close>. \<open>strptime\<close> with the format
  \<open>%Y-%m-%dT%H:%M:%SZ\<close> gives a naive value.

  \<open>Config.DATE_RANGE_DAYS\<close> is the \<open>int\<close> read from the environment, of any size.
  \<open>timedelta(days=d)\<close> raises \<open>OverflowError\<close> when \<open>d\<close> has a magnitude above 999999999,
  and subtracting a \<open>timedelta\<close> from a \<open>datetime\<close> raises \<open>OverflowError\<close> when the result
  is outside the years 1 to 9999.
\<close>

record item =
  item_sha :: "string option"
  item_path :: string
  html_url :: string
  repo_full_name :: string
  repo_pushed_at :: "string option"

datatype datetime = Naive int | Aware int

record config =
  fromisoformat :: "string \<Rightarrow> datetime option"
  strptime :: "string \<Rightarrow> int option"
  utcnow :: int
  DATE_RANGE_DAYS :: int
  FILE_PATH_BLACKLIST :: "string list"

datatype py_error = ValueError | OverflowError

definition datetime_max :: int where
  \<comment> \<open>\<open>datetime.max\<close>, the last microsecond of the year 9999\<close>
  "datetime_max = 3652059 * 86400000000 - 1"

definition timedelta_days :: "int \<Rightarrow> py_error + int" where
  \<comment> \<open>\<open>timedelta(days=d)\<close>, in microseconds\<close>
  "timedelta_days d =
     (if 999999999 < \<bar>d\<bar> then Inl OverflowError else Inr (d * 86400000000))"

definition datetime_sub :: "int \<Rightarrow> int \<Rightarrow> py_error + int" where
  \<comment> \<open>\<open>dt - delta\<close> for a \<open>datetime\<close> and a \<open>timedelta\<close>\<close>
  "datetime_sub dt delta =
     (if dt - delta < 0 \<or> datetime_max < dt - delta then Inl OverflowError
      else Inr (dt - delta))"

definition age_bound :: "config \<Rightarrow> py_error + int" where
  \<comment> \<open>\<open>datetime.utcnow() - timedelta(days=Config.DATE_RANGE_DAYS)\<close>\<close>
  "age_bound cfg =
     (case timedelta_days (DATE_RANGE_DAYS cfg) of
        Inl e \<Rightarrow> Inl e
      | Inr delta \<Rightarrow> datetime_sub (utcnow cfg) delta)"

definition time_filter :: "config \<Rightarrow> item \<Rightarrow> Checkpoint \<Rightarrow> bool" where
  \<comment> \<open>the first block of \<open>should_skip_item\<close>: true when it returns; every exception raised
      inside its \<open>try\<close> is swallowed and the block falls through\<close>
  "time_filter cfg it cp =
     (case last_scan_time cp of
        None \<Rightarrow> False
      | Some lst \<Rightarrow>
          if lst = [] then False
          else (case fromisoformat cfg lst of
                  None \<Rightarrow> False
                | Some last_scan_dt \<Rightarrow>
                    (case repo_pushed_at it of
                       None \<Rightarrow> False
                     | Some p \<Rightarrow>
                         if p = [] then False
                         else (case strptime cfg p of
                                 None \<Rightarrow> False
                               | Some repo_pushed_dt \<Rightarrow>
                                   (case last_scan_dt of
                                      Aware l \<Rightarrow> False
                                    | Naive l \<Rightarrow> repo_pushed_dt \<le> l)))))"

definition sha_duplicate :: "item \<Rightarrow> Checkpoint \<Rightarrow> bool" where
  \<comment> \<open>\<open>item.get("sha") in checkpoint.scanned_shas\<close>\<close>
  "sha_duplicate it cp =
     (case item_sha it of None \<Rightarrow> False | Some s \<Rightarrow> s |\<in>| scanned_shas cp)"

definition doc_filter :: "config \<Rightarrow> item \<Rightarrow> bool" where
  "doc_filter cfg it =
     (let lowercase_path = lower (item_path it)
      in list_ex (\<lambda>token. contains lowercase_path token) (FILE_PATH_BLACKLIST cfg))"

definition doc_stage :: "config \<Rightarrow> item \<Rightarrow> py_error + (bool \<times> string)" where
  \<comment> \<open>the last block of \<open>should_skip_item\<close> and its final \<open>return\<close>\<close>
  "doc_stage cfg it =
     (if doc_filter cfg it then Inr (True, ''doc_filter'') else Inr (False, []))"

definition should_skip_item :: "config \<Rightarrow> item \<Rightarrow> Checkpoint \<Rightarrow> py_error + (bool \<times> string)" where
  \<comment> \<open>the \<open>skip_stats\<close> counters, which the function also increments, are left out; the
      age block is outside any \<open>try\<close>, so what \<open>strptime\<close> or the subtraction raises there
      leaves the function\<close>
  "should_skip_item cfg it cp =
     (if time_filter cfg it cp then Inr (True, ''time_filter'')
      else if sha_duplicate it cp then Inr (True, ''sha_duplicate'')
      else
        (case repo_pushed_at it of
           None \<Rightarrow> doc_stage cfg it
         | Some p \<Rightarrow>
             if p = [] then doc_stage cfg it
             else (case strptime cfg p of
                     None \<Rightarrow> Inl ValueError
                   | Some repo_pushed_dt \<Rightarrow>
                       (case age_bound cfg of
                          Inl e \<Rightarrow> Inl e
                        | Inr bound \<Rightarrow>
                            if repo_pushed_dt < bound then Inr (True, ''age_filter'')
                            else doc_stage cfg it))))"

section \<open>Credential validation (app/hajimi_king.py)\<close>

text \<open>
  The body of the \<open>try\<close> of \<open>validate_gemini_key\<close> either runs to its end or raises an
  exception. The model records which \<open>except\<close> clause is the first to accept it, the name
  of its class and its text \<open>str(e)\<close>. An exception that is no instance of \<open>Exception\<close>
  (\<open>KeyboardInterrupt\<close>, \<open>SystemExit\<close>: the classes directly under \<open>BaseException\<close>) is
  accepted by no clause and leaves the function; it leaves \<open>process_item\<close> too, which calls
  the function outside any \<open>try\<close>, and reaches the handlers of \<open>main\<close>.
\<close>

datatype exc_class =
  PermissionDenied | Unauthenticated | TooManyRequests | OtherException | BaseExceptionOnly

record exn =
  exn_class :: exc_class
  exn_name :: string
  exn_str :: string

datatype call_outcome = Returns | Raises exn

definition validate_gemini_key :: "call_outcome \<Rightarrow> exn + string" where
  \<comment> \<open>\<open>Inr\<close> the string returned, \<open>Inl\<close> the exception that leaves the function\<close>
  "validate_gemini_key r =
     (case r of
        Returns \<Rightarrow> Inr ''ok''
      | Raises e \<Rightarrow>
          (case exn_class e of
             PermissionDenied \<Rightarrow> Inr ''not_authorized_key''
           | Unauthenticated \<Rightarrow> Inr ''not_authorized_key''
           | TooManyRequests \<Rightarrow> Inr ''rate_limited''
           | OtherException \<Rightarrow>
               if contains (exn_str e) ''429'' \<or> contains (lower (exn_str e)) ''rate limit''
                  \<or> contains (lower (exn_str e)) ''quota''
               then Inr ''rate_limited:429''
               else if contains (exn_str e) ''403'' \<or> contains (exn_str e) ''SERVICE_DISABLED''
                  \<or> contains (exn_str e) ''API has not been used''
               then Inr ''disabled''
               else Inr (''error:'' @ exn_name e)
           | BaseExceptionOnly \<Rightarrow> Inl e))"

datatype verdict = Valid | RateLimited | Invalid

definition bucket_of_result :: "string \<Rightarrow> verdict" where
  \<comment> \<open>the \<open>if/elif/else\<close> of the validation loop of \<open>process_item\<close>\<close>
  "bucket_of_result validation_result =
     (if validation_result \<noteq> [] \<and> contains validation_result ''ok'' then Valid
      else if validation_result = ''rate_limited'' then RateLimited
      else Invalid)"

fun validate_keys :: "(string \<Rightarrow> call_outcome) \<Rightarrow> string list \<Rightarrow> exn + (string list \<times> string list)" where
  \<comment> \<open>the validation loop of \<open>process_item\<close>: \<open>(valid_keys, rate_limited_keys)\<close>, or the
      exception that the first call to let one through has raised\<close>
  "validate_keys generate_content [] = Inr ([], [])"
| "validate_keys generate_content (key # keys) =
     (case validate_gemini_key (generate_content key) of
        Inl e \<Rightarrow> Inl e
      | Inr validation_result \<Rightarrow>
          (case validate_keys generate_content keys of
             Inl e \<Rightarrow> Inl e
           | Inr (valid_keys, rate_limited_keys) \<Rightarrow>
               (case bucket_of_result validation_result of
                  Valid \<Rightarrow> Inr (key # valid_keys, rate_limited_keys)
                | RateLimited \<Rightarrow> Inr (valid_keys, key # rate_limited_keys)
                | Invalid \<Rightarrow> Inr (valid_keys, rate_limited_keys))))"

section \<open>Persistence (utils/file_manager.py)\<close>

text \<open>
  \<open>checkpoint.json\<close> holds the dictionary of \<open>to_dict\<close>; the ledger of scanned ids is a
  text file. A file is absent, or it exists and reading it raises at once (unreadable, or
  content that \<open>json.load\<close> or \<open>from_dict\<close> rejects), or reading it raises after a part of
  it has been read (\<open>Truncated\<close>, with the part read before the error: for the ledger, which
  is read line by line, the lines that the loop has seen), or it holds a value. Opening one
  of the two for writing either succeeds or raises, which the \<open>writable\<close> flags say. The
  output files are lists of the lines appended so far.
\<close>

record checkpoint_json =
  j_last_scan_time :: "string option"
  j_processed_queries :: "string list"
  j_wait_send_balancer :: "string list"
  j_wait_send_gpt_load :: "string list"

datatype 'a stored = Absent | Unreadable | Truncated 'a | Holds 'a

record disk =
  checkpoint_file :: "checkpoint_json stored"
  checkpoint_writable :: bool
  scanned_shas_file :: "string stored"
  scanned_shas_writable :: bool
  keys_valid_file :: "string list"
  detail_log_file :: "string list"
  rate_limited_file :: "string list"
  rate_limited_detail_file :: "string list"
  keys_send_file :: "string list"
  keys_send_detail_file :: "string list"

definition to_dict :: "Checkpoint \<Rightarrow> checkpoint_json" where
  "to_dict cp =
     \<lparr>j_last_scan_time = last_scan_time cp,
      j_processed_queries = list_of_set (processed_queries cp),
      j_wait_send_balancer = list_of_set (wait_send_balancer cp),
      j_wait_send_gpt_load = list_of_set (wait_send_gpt_load cp)\<rparr>"

definition from_dict :: "checkpoint_json \<Rightarrow> Checkpoint" where
  "from_dict data =
     \<lparr>last_scan_time = j_last_scan_time data,
      scanned_shas = {||},
      processed_queries = fset_of_list (j_processed_queries data),
      wait_send_balancer = fset_of_list (j_wait_send_balancer data),
      wait_send_gpt_load = fset_of_list (j_wait_send_gpt_load data)\<rparr>"

fun split_lines :: "string \<Rightarrow> string list" where
  \<comment> \<open>the lines of a text file, without their line ends (a carriage return ends a line
      too, as the universal-newlines mode of \<open>open\<close> has it)\<close>
  "split_lines [] = [[]]"
| "split_lines (c # cs) =
     (if c = newline \<or> c = CHR 0x0D then [] # split_lines cs
      else (case split_lines cs of [] \<Rightarrow> [[c]] | l # ls \<Rightarrow> (c # l) # ls))"

definition ledger_text :: "string \<Rightarrow> string fset \<Rightarrow> string" where
  \<comment> \<open>what \<open>save_scanned_shas\<close> writes: three comment lines (their wording, Chinese in the
      source, is replaced), an empty line, then the sorted ids, one per line\<close>
  "ledger_text now_str shas =
     ''# scanned file SHAs'' @ [newline] @ ''# one SHA per line'' @ [newline]
     @ ''# last update: '' @ now_str @ [newline] @ [newline]
     @ concat (map (\<lambda>sha. sha @ [newline]) (sorted_list_of_fset shas))"

definition save_scanned_shas :: "string \<Rightarrow> string fset \<Rightarrow> disk \<Rightarrow> disk" where
  \<comment> \<open>a failure to write is logged and swallowed\<close>
  "save_scanned_shas now_str shas d =
     (if scanned_shas_writable d then d\<lparr>scanned_shas_file := Holds (ledger_text now_str shas)\<rparr>
      else d)"

definition load_scanned_shas :: "disk \<Rightarrow> string fset" where
  \<comment> \<open>an error while reading is logged and swallowed: the ids of the lines read before it
      are returned\<close>
  "load_scanned_shas d =
     (case scanned_shas_file d of
        Holds text \<Rightarrow>
          fset_of_list
            (filter (\<lambda>line. line \<noteq> [] \<and> \<not> startswith line ''#'') (map strip (split_lines text)))
      | Truncated text \<Rightarrow>
          fset_of_list
            (filter (\<lambda>line. line \<noteq> [] \<and> \<not> startswith line ''#'') (map strip (split_lines text)))
      | Unreadable \<Rightarrow> {||}
      | Absent \<Rightarrow> {||})"

subsection \<open>Objects and references\<close>

text \<open>
  Checkpoint objects live in a heap and variables hold their addresses: an assignment to a
  field changes the object every holder of the address sees, an assignment to a variable
  changes that variable alone.
\<close>

type_synonym addr = nat

record heap =
  objs :: "addr \<Rightarrow> Checkpoint"
  next_addr :: addr

definition alloc :: "Checkpoint \<Rightarrow> heap \<Rightarrow> addr \<times> heap" where
  "alloc cp h = (next_addr h, \<lparr>objs = (objs h)(next_addr h := cp), next_addr = Suc (next_addr h)\<rparr>)"

definition set_scanned_shas :: "addr \<Rightarrow> string fset \<Rightarrow> heap \<Rightarrow> heap" where
  \<comment> \<open>\<open>checkpoint.scanned_shas = v\<close>\<close>
  "set_scanned_shas a v h = h\<lparr>objs := (objs h)(a := (objs h a)\<lparr>scanned_shas := v\<rparr>)\<rparr>"

function load_checkpoint :: "string \<Rightarrow> heap \<Rightarrow> disk \<Rightarrow> addr \<times> heap \<times> disk"
  and save_checkpoint :: "string \<Rightarrow> heap \<Rightarrow> disk \<Rightarrow> addr \<Rightarrow> heap \<times> disk" where
  "load_checkpoint now_str h d =
     (case alloc empty_checkpoint h of
        (checkpoint, h1) \<Rightarrow>
          (case checkpoint_file d of
             Holds data \<Rightarrow>
               (case alloc (from_dict data) h1 of
                  (checkpoint', h2) \<Rightarrow>
                    (checkpoint', set_scanned_shas checkpoint' (load_scanned_shas d) h2, d))
           | Unreadable \<Rightarrow>
               (checkpoint, set_scanned_shas checkpoint (load_scanned_shas d) h1, d)
           | Truncated data \<Rightarrow>
               (checkpoint, set_scanned_shas checkpoint (load_scanned_shas d) h1, d)
           | Absent \<Rightarrow>
               (case save_checkpoint now_str h1 d checkpoint of
                  (h2, d2) \<Rightarrow>
                    (checkpoint, set_scanned_shas checkpoint (load_scanned_shas d2) h2, d2))))"
| "save_checkpoint now_str h d checkpoint =
     (case save_scanned_shas now_str (scanned_shas (objs h checkpoint)) d of
        d1 \<Rightarrow>
          if checkpoint_writable d1
          then (case load_checkpoint now_str h
                       (d1\<lparr>checkpoint_file := Holds (to_dict (objs h checkpoint))\<rparr>) of
                  (checkpoint', h', d2) \<Rightarrow> (h', d2))
          else (h, d1))"
  by pat_completeness auto
termination
  by (relation "measure (\<lambda>x. case x of
          Inl (now_str, h, d) \<Rightarrow> (if checkpoint_file d = Absent then 2 else 0)
        | Inr (now_str, h, d, a) \<Rightarrow> 1)") auto

subsection \<open>Output files\<close>

definition rule_line :: string where
  "rule_line = replicate 80 (CHR ''-'')"

definition save_valid_keys :: "string \<Rightarrow> string \<Rightarrow> string list \<Rightarrow> disk \<Rightarrow> disk" where
  \<comment> \<open>arguments: the time stamp, \<open>file_url\<close>, \<open>valid_keys\<close>; the file names are set by the
      constructor\<close>
  "save_valid_keys stamp file_url valid_keys d =
     (if valid_keys = [] then d
      else d\<lparr>detail_log_file :=
                detail_log_file d @ [''TIME: '' @ stamp, ''URL: '' @ file_url]
                @ map (\<lambda>key. ''KEY: '' @ key) valid_keys @ [rule_line],
              keys_valid_file := keys_valid_file d @ valid_keys\<rparr>)"

definition save_rate_limited_keys :: "string \<Rightarrow> string \<Rightarrow> string list \<Rightarrow> disk \<Rightarrow> disk" where
  "save_rate_limited_keys stamp file_url rate_limited_keys d =
     (if rate_limited_keys = [] then d
      else d\<lparr>rate_limited_detail_file :=
                rate_limited_detail_file d @ [''TIME: '' @ stamp, ''URL: '' @ file_url]
                @ rate_limited_keys @ [rule_line],
              rate_limited_file := rate_limited_file d @ rate_limited_keys\<rparr>)"

definition result_of :: "(string \<rightharpoonup> string) \<Rightarrow> string \<Rightarrow> string" where
  \<comment> \<open>\<open>send_result.get(key, "unknown")\<close>\<close>
  "result_of send_result key = (case send_result key of None \<Rightarrow> ''unknown'' | Some r \<Rightarrow> r)"

definition save_keys_send_result :: "string \<Rightarrow> string list \<Rightarrow> (string \<rightharpoonup> string) \<Rightarrow> disk \<Rightarrow> disk" where
  "save_keys_send_result stamp keys send_result d =
     (if keys = [] then d
      else d\<lparr>keys_send_detail_file :=
                keys_send_detail_file d @ [''TIME: '' @ stamp]
                @ map (\<lambda>key. ''KEY: '' @ key @ '' | RESULT: '' @ result_of send_result key) keys
                @ [rule_line],
              keys_send_file :=
                keys_send_file d @ map (\<lambda>key. key @ '' | '' @ result_of send_result key) keys\<rparr>)"

section \<open>The program state and the outside world\<close>

text \<open>
  The state holds the heap, the module variable \<open>checkpoint\<close> (a reference), the files and
  the fields of the \<open>SyncUtils\<close> instance that change. The world gives what the clock, the
  search client, the liveness call and the two key-pool services answer: a request raises
  or returns a status and a body, and a body is JSON or not. The answers of key pool B are
  indexed by the position of the group in the configured list.
\<close>

datatype req_error = Timeout | ConnectionError | OtherError

datatype 'a body = NotJson | Json 'a

datatype 'a response = Fails req_error | Response int "'a body"

datatype config_json = ConfigMalformed | ConfigObject "string list option"
  \<comment> \<open>a JSON value on which \<open>get\<close> or \<open>set(...)\<close> raises, or an object with its \<open>API_KEYS\<close>
      entry, if any\<close>

datatype groups_json = GroupsMalformed | GroupsObject "int option" "(string \<times> int option) list"
  \<comment> \<open>the entry \<open>code\<close> and, for each group of \<open>data\<close>, its \<open>name\<close> and its \<open>id\<close>\<close>

datatype add_json = AddMalformed | AddObject "int option"
  \<comment> \<open>the entry \<open>code\<close>\<close>

record world =
  strftime_now :: string
  utcnow_isoformat :: string
  time_time :: real
  get_file_content :: "item \<Rightarrow> string option"
  generate_content :: "string \<Rightarrow> call_outcome"
  get_config :: "config_json response"
  put_config :: "string list \<Rightarrow> config_json response"
  get_groups :: "nat \<Rightarrow> groups_json response"
  post_keys :: "nat \<Rightarrow> add_json response"

record sync_config =
  balancer_enabled :: bool
  gpt_load_enabled :: bool
  gpt_load_group_names :: "string list"
  group_id_cache_ttl :: real

record state =
  store :: heap
  checkpoint_ref :: addr
  files :: disk
  saving_checkpoint :: bool
  group_id_cache :: "string \<rightharpoonup> int option"
  group_id_cache_time :: "string \<rightharpoonup> real"

definition the_checkpoint :: "state \<Rightarrow> Checkpoint" where
  \<comment> \<open>the object the module variable \<open>checkpoint\<close> refers to\<close>
  "the_checkpoint s = objs (store s) (checkpoint_ref s)"

definition modify_checkpoint :: "(Checkpoint \<Rightarrow> Checkpoint) \<Rightarrow> state \<Rightarrow> state" where
  \<comment> \<open>a method call or a field update on that object\<close>
  "modify_checkpoint f s =
     s\<lparr>store := (store s)\<lparr>objs := (objs (store s))(checkpoint_ref s := f (the_checkpoint s))\<rparr>\<rparr>"

definition call_save_checkpoint :: "world \<Rightarrow> state \<Rightarrow> state" where
  \<comment> \<open>\<open>file_manager.save_checkpoint(checkpoint)\<close>\<close>
  "call_save_checkpoint w s =
     (case save_checkpoint (strftime_now w) (store s) (files s) (checkpoint_ref s) of
        (h, d) \<Rightarrow> s\<lparr>store := h, files := d\<rparr>)"

section \<open>The sync engine (utils/sync_utils.py)\<close>

definition add_keys_to_queue :: "sync_config \<Rightarrow> world \<Rightarrow> string list \<Rightarrow> state \<Rightarrow> state option" where
  \<comment> \<open>\<open>None\<close>: the call waits for \<open>saving_checkpoint\<close>, which only another thread can clear\<close>
  "add_keys_to_queue sc w keys s =
     (if keys = [] then Some s
      else if saving_checkpoint s then None
      else
        (let s1 = s\<lparr>saving_checkpoint := True\<rparr>;
             s2 = (if balancer_enabled sc
                   then modify_checkpoint
                          (\<lambda>cp. cp\<lparr>wait_send_balancer := wait_send_balancer cp |\<union>| fset_of_list keys\<rparr>) s1
                   else s1);
             s3 = (if gpt_load_enabled sc
                   then modify_checkpoint
                          (\<lambda>cp. cp\<lparr>wait_send_gpt_load := wait_send_gpt_load cp |\<union>| fset_of_list keys\<rparr>) s2
                   else s2);
             s4 = call_save_checkpoint w s3
         in Some (s4\<lparr>saving_checkpoint := False\<rparr>)))"

definition error_code :: "req_error \<Rightarrow> string" where
  \<comment> \<open>the \<open>except\<close> clauses of the two workers\<close>
  "error_code e =
     (case e of Timeout \<Rightarrow> ''timeout'' | ConnectionError \<Rightarrow> ''connection_error''
      | OtherError \<Rightarrow> ''exception'')"

definition log_all :: "string \<Rightarrow> string list \<Rightarrow> string \<Rightarrow> disk \<Rightarrow> disk" where
  \<comment> \<open>\<open>send_result = {key: code for key in keys}\<close>, then \<open>save_keys_send_result(keys, send_result)\<close>\<close>
  "log_all stamp keys code d =
     save_keys_send_result stamp keys (map_of (map (\<lambda>key. (key, code)) keys)) d"

fun merge_keys :: "string list \<Rightarrow> string fset \<times> string fset \<Rightarrow> string fset \<times> string fset" where
  \<comment> \<open>the merge loop of \<open>_send_balancer_worker\<close> on \<open>(existing_keys_set, new_add_keys_set)\<close>\<close>
  "merge_keys [] acc = acc"
| "merge_keys (key # keys) (existing_keys_set, new_add_keys_set) =
     (if key |\<notin>| existing_keys_set
      then merge_keys keys (finsert key existing_keys_set, finsert key new_add_keys_set)
      else merge_keys keys (existing_keys_set, new_add_keys_set))"

definition api_keys_of :: "string list option \<Rightarrow> string list" where
  \<comment> \<open>\<open>config.get('API_KEYS', [])\<close>\<close>
  "api_keys_of entry = (case entry of None \<Rightarrow> [] | Some ks \<Rightarrow> ks)"

record sent =
  result_code :: string
  put_payload :: "string list option"
  files_after :: disk

definition verify_update :: "string \<Rightarrow> string list \<Rightarrow> string fset \<Rightarrow> string list option \<Rightarrow> disk \<Rightarrow> sent" where
  \<comment> \<open>step 6 of \<open>_send_balancer_worker\<close>, from the echoed \<open>API_KEYS\<close> entry\<close>
  "verify_update stamp payload new_add_keys_set entry d =
     (let updated_keys_set = fset_of_list (api_keys_of entry);
          failed_to_add =
            filter (\<lambda>key. key |\<notin>| updated_keys_set) (list_of_set new_add_keys_set)
      in if failed_to_add \<noteq> []
         then
           (let keys_to_log = list_of_set new_add_keys_set;
                send_result =
                  map_of (map (\<lambda>key. (key, if key \<in> set failed_to_add then ''update_failed''
                                             else ''ok'')) keys_to_log)
            in \<lparr>result_code = ''update_failed'', put_payload = Some payload,
                files_after = save_keys_send_result stamp keys_to_log send_result d\<rparr>)
         else
           \<lparr>result_code = ''ok'', put_payload = Some payload,
            files_after = log_all stamp (list_of_set new_add_keys_set) ''ok'' d\<rparr>)"

definition send_balancer_worker :: "world \<Rightarrow> string list \<Rightarrow> disk \<Rightarrow> sent" where
  "send_balancer_worker w keys d =
     (let stamp = strftime_now w;
          failed = (\<lambda>code payload.
            \<lparr>result_code = code, put_payload = payload, files_after = log_all stamp keys code d\<rparr>)
      in case get_config w of
           Fails e \<Rightarrow> failed (error_code e) None
         | Response status_code body \<Rightarrow>
             if status_code \<noteq> 200
             then \<lparr>result_code = ''get_config_failed_not_200'', put_payload = None,
                   files_after = d\<rparr>
             else (case body of
                NotJson \<Rightarrow> failed ''json_decode_error'' None
              | Json ConfigMalformed \<Rightarrow> failed ''exception'' None
              | Json (ConfigObject entry) \<Rightarrow>
                  (case merge_keys keys (fset_of_list (api_keys_of entry), {||}) of
                     (existing_keys_set, new_add_keys_set) \<Rightarrow>
                       if fcard new_add_keys_set = 0
                       then \<lparr>result_code = ''ok'', put_payload = None, files_after = d\<rparr>
                       else
                         (let payload = list_of_set existing_keys_set
                          in case put_config w payload of
                               Fails e \<Rightarrow> failed (error_code e) (Some payload)
                             | Response update_status update_body \<Rightarrow>
                                 if update_status \<noteq> 200
                                 then \<lparr>result_code = ''update_config_failed_not_200'',
                                       put_payload = Some payload, files_after = d\<rparr>
                                 else (case update_body of
                                    NotJson \<Rightarrow> failed ''json_decode_error'' (Some payload)
                                  | Json ConfigMalformed \<Rightarrow> failed ''exception'' (Some payload)
                                  | Json (ConfigObject updated) \<Rightarrow>
                                      verify_update stamp payload new_add_keys_set updated d)))))"

definition fetch_group_id :: "groups_json response \<Rightarrow> real \<Rightarrow> string \<Rightarrow> state \<Rightarrow> int option \<times> state" where
  \<comment> \<open>the part of \<open>_get_gpt_load_group_id\<close> after a cache miss; every exception gives \<open>None\<close>\<close>
  "fetch_group_id resp current_time group_name s =
     (case resp of
        Fails e \<Rightarrow> (None, s)
      | Response status_code body \<Rightarrow>
          if status_code \<noteq> 200 then (None, s)
          else (case body of
             NotJson \<Rightarrow> (None, s)
           | Json GroupsMalformed \<Rightarrow> (None, s)
           | Json (GroupsObject code groups_list) \<Rightarrow>
               if code \<noteq> Some 0 then (None, s)
               else (case List.find (\<lambda>g. fst g = group_name) groups_list of
                  None \<Rightarrow> (None, s)
                | Some g \<Rightarrow>
                    (snd g,
                     s\<lparr>group_id_cache := (group_id_cache s)(group_name \<mapsto> snd g),
                       group_id_cache_time := (group_id_cache_time s)(group_name \<mapsto> current_time)\<rparr>))))"

definition get_gpt_load_group_id :: "sync_config \<Rightarrow> groups_json response \<Rightarrow> real \<Rightarrow> string \<Rightarrow> state \<Rightarrow> int option \<times> state" where
  "get_gpt_load_group_id sc resp current_time group_name s =
     (case group_id_cache s group_name of
        None \<Rightarrow> fetch_group_id resp current_time group_name s
      | Some cached \<Rightarrow>
          (case group_id_cache_time s group_name of
             None \<Rightarrow> fetch_group_id resp current_time group_name s
           | Some t \<Rightarrow>
               if current_time - t < group_id_cache_ttl sc then (cached, s)
               else fetch_group_id resp current_time group_name s))"

definition add_keys_ok :: "add_json response \<Rightarrow> bool" where
  \<comment> \<open>the inner \<open>try\<close> of \<open>_send_gpt_load_worker\<close> reaches its end: status 200 and \<open>code\<close> 0\<close>
  "add_keys_ok resp =
     (case resp of
        Fails e \<Rightarrow> False
      | Response status_code body \<Rightarrow>
          if status_code \<noteq> 200 then False
          else (case body of
             NotJson \<Rightarrow> False
           | Json AddMalformed \<Rightarrow> False
           | Json (AddObject code) \<Rightarrow> code = Some 0))"

fun send_to_groups :: "sync_config \<Rightarrow> world \<Rightarrow> nat \<Rightarrow> string list \<Rightarrow> bool \<times> string list \<Rightarrow> state
    \<Rightarrow> (bool \<times> string list) \<times> state" where
  \<comment> \<open>the loop over the group names on \<open>(all_success, failed_groups)\<close>; the number counts
      the groups already handled\<close>
  "send_to_groups sc w i [] acc s = (acc, s)"
| "send_to_groups sc w i (group_name # rest) (all_success, failed_groups) s =
     (case get_gpt_load_group_id sc (get_groups w i) (time_time w) group_name s of
        (None, s1) \<Rightarrow> send_to_groups sc w (Suc i) rest (False, failed_groups @ [group_name]) s1
      | (Some group_id, s1) \<Rightarrow>
          if add_keys_ok (post_keys w i)
          then send_to_groups sc w (Suc i) rest (all_success, failed_groups) s1
          else send_to_groups sc w (Suc i) rest (False, failed_groups @ [group_name]) s1)"

definition send_gpt_load_worker :: "sync_config \<Rightarrow> world \<Rightarrow> string list \<Rightarrow> state \<Rightarrow> string \<times> state" where
  \<comment> \<open>nothing in the body raises outside the inner handlers, so the outer \<open>except\<close>
      clauses are not reached\<close>
  "send_gpt_load_worker sc w keys s =
     (case send_to_groups sc w 0 (gpt_load_group_names sc) (True, []) s of
        ((all_success, failed_groups), s1) \<Rightarrow>
          if all_success
          then (''ok'', s1\<lparr>files := log_all (strftime_now w) keys ''ok'' (files s1)\<rparr>)
          else (''partial_failure'',
                s1\<lparr>files := log_all (strftime_now w) keys
                      (''partial_failure_'' @ str_of_nat (length failed_groups) @ ''_groups'')
                      (files s1)\<rparr>))"

definition flush_balancer :: "sync_config \<Rightarrow> world \<Rightarrow> state \<Rightarrow> state" where
  \<comment> \<open>the first \<open>if\<close> of \<open>_batch_send_worker\<close>\<close>
  "flush_balancer sc w s =
     (if wait_send_balancer (the_checkpoint s) \<noteq> {||} \<and> balancer_enabled sc
      then
        (let balancer_keys = list_of_set (wait_send_balancer (the_checkpoint s));
             r = send_balancer_worker w balancer_keys (files s);
             s1 = s\<lparr>files := files_after r\<rparr>
         in if result_code r = ''ok''
            then modify_checkpoint (\<lambda>cp. cp\<lparr>wait_send_balancer := {||}\<rparr>) s1
            else s1)
      else s)"

definition flush_gpt_load :: "sync_config \<Rightarrow> world \<Rightarrow> state \<Rightarrow> state" where
  \<comment> \<open>the second \<open>if\<close> of \<open>_batch_send_worker\<close>\<close>
  "flush_gpt_load sc w s =
     (if wait_send_gpt_load (the_checkpoint s) \<noteq> {||} \<and> gpt_load_enabled sc
      then
        (let gpt_load_keys = list_of_set (wait_send_gpt_load (the_checkpoint s))
         in case send_gpt_load_worker sc w gpt_load_keys s of
              (code, s1) \<Rightarrow>
                if code = ''ok''
                then modify_checkpoint (\<lambda>cp. cp\<lparr>wait_send_gpt_load := {||}\<rparr>) s1
                else s1)
      else s)"

definition batch_send_worker :: "sync_config \<Rightarrow> world \<Rightarrow> state \<Rightarrow> state option" where
  \<comment> \<open>one tick of the periodic flush; \<open>None\<close>: it waits for \<open>saving_checkpoint\<close>\<close>
  "batch_send_worker sc w s =
     (if saving_checkpoint s then None
      else
        (let s1 = s\<lparr>saving_checkpoint := True\<rparr>;
             s2 = flush_balancer sc w s1;
             s3 = flush_gpt_load sc w s2;
             s4 = call_save_checkpoint w s3
         in Some (s4\<lparr>saving_checkpoint := False\<rparr>)))"

section \<open>Processing one item and the steps of a run (app/hajimi_king.py)\<close>

definition process_item :: "sync_config \<Rightarrow> world \<Rightarrow> item \<Rightarrow> state \<Rightarrow> (exn + (nat \<times> nat) \<times> state) option" where
  \<comment> \<open>\<open>None\<close>: the call of \<open>add_keys_to_queue\<close> does not return; \<open>Some (Inl e)\<close>: the
      exception \<open>e\<close> leaves the function, which the validation loop lets happen before
      anything is written; \<open>Some (Inr (counts, s1))\<close>: the function returns \<open>counts\<close>
      in the state \<open>s1\<close>\<close>
  "process_item sc w it s =
     (case get_file_content w it of
        None \<Rightarrow> Some (Inr ((0, 0), s))
      | Some content \<Rightarrow>
          if content = [] then Some (Inr ((0, 0), s))
          else
            (let keys = candidate_keys content
             in if keys = [] then Some (Inr ((0, 0), s))
                else
                  (case validate_keys (generate_content w) keys of
                     Inl e \<Rightarrow> Some (Inl e)
                   | Inr (valid_keys, rate_limited_keys) \<Rightarrow>
                       (case (if valid_keys \<noteq> []
                              then add_keys_to_queue sc w valid_keys
                                     (s\<lparr>files := save_valid_keys (strftime_now w) (html_url it)
                                                    valid_keys (files s)\<rparr>)
                              else Some s) of
                          None \<Rightarrow> None
                        | Some s1 \<Rightarrow>
                            Some (Inr ((length valid_keys, length rate_limited_keys),
                                  s1\<lparr>files := save_rate_limited_keys (strftime_now w) (html_url it)
                                                 rate_limited_keys (files s1)\<rparr>))))))"

datatype step =
    AddScannedSha "string option"
  | AddProcessedQuery string
  | UpdateScanTime
  | SaveCheckpoint
  | ProcessItem item
  | BatchSend

fun exec :: "sync_config \<Rightarrow> step \<times> world \<Rightarrow> state \<Rightarrow> state option" where
  \<comment> \<open>the statements of \<open>main\<close> and of the timer that change the state, each with the
      world it meets; an exception that leaves \<open>process_item\<close> leaves the state as it was
      (what \<open>main\<close> does then, saving the checkpoint after a \<open>KeyboardInterrupt\<close>, is made
      of further steps)\<close>
  "exec sc (AddScannedSha sha, w) s = Some (modify_checkpoint (add_scanned_sha sha) s)"
| "exec sc (AddProcessedQuery q, w) s = Some (modify_checkpoint (add_processed_query q) s)"
| "exec sc (UpdateScanTime, w) s =
     Some (modify_checkpoint (update_scan_time (utcnow_isoformat w)) s)"
| "exec sc (SaveCheckpoint, w) s = Some (call_save_checkpoint w s)"
| "exec sc (ProcessItem it, w) s =
     (case process_item sc w it s of
        None \<Rightarrow> None
      | Some (Inl e) \<Rightarrow> Some s
      | Some (Inr (counts, s1)) \<Rightarrow> Some s1)"
| "exec sc (BatchSend, w) s = batch_send_worker sc w s"

fun run :: "sync_config \<Rightarrow> (step \<times> world) list \<Rightarrow> state \<Rightarrow> state option" where
  "run sc [] s = Some s"
| "run sc (x # xs) s = (case exec sc x s of None \<Rightarrow> None | Some s1 \<Rightarrow> run sc xs s1)"

section \<open>The vocabulary of the properties\<close>

definition push_time :: "config \<Rightarrow> item \<Rightarrow> int option" where
  \<comment> \<open>the repository push time of an item, when it has one that parses\<close>
  "push_time cfg it =
     (case repo_pushed_at it of None \<Rightarrow> None | Some p \<Rightarrow> if p = [] then None else strptime cfg p)"

definition last_scan :: "config \<Rightarrow> Checkpoint \<Rightarrow> int option" where
  \<comment> \<open>the time of the last scan, when the checkpoint has one that parses to a naive value\<close>
  "last_scan cfg cp =
     (case last_scan_time cp of
        None \<Rightarrow> None
      | Some lst \<Rightarrow>
          if lst = [] then None
          else (case fromisoformat cfg lst of
                  None \<Rightarrow> None
                | Some (Aware l) \<Rightarrow> None
                | Some (Naive l) \<Rightarrow> Some l))"

definition time_hit :: "config \<Rightarrow> item \<Rightarrow> Checkpoint \<Rightarrow> bool" where
  \<comment> \<open>the push time is at or before the time of the last scan\<close>
  "time_hit cfg it cp =
     (case push_time cfg it of
        None \<Rightarrow> False
      | Some t \<Rightarrow> (case last_scan cfg cp of None \<Rightarrow> False | Some l \<Rightarrow> t \<le> l))"

definition age_hit :: "config \<Rightarrow> item \<Rightarrow> bool" where
  \<comment> \<open>the push time is before now minus the retention window\<close>
  "age_hit cfg it =
     (case push_time cfg it of
        None \<Rightarrow> False
      | Some t \<Rightarrow> (case age_bound cfg of Inl e \<Rightarrow> False | Inr bound \<Rightarrow> t < bound))"

definition age_test_returns :: "config \<Rightarrow> item \<Rightarrow> bool" where
  \<comment> \<open>the age test raises nothing: the item has no push time, or one that parses while
      now minus the retention window is a \<open>datetime\<close>\<close>
  "age_test_returns cfg it =
     (case repo_pushed_at it of
        None \<Rightarrow> True
      | Some p \<Rightarrow> p = [] \<or> (strptime cfg p \<noteq> None \<and> \<not> isl (age_bound cfg)))"

definition live :: "state \<Rightarrow> bool" where
  \<comment> \<open>the module variable refers to an allocated object\<close>
  "live s \<longleftrightarrow> checkpoint_ref s < next_addr (store s)"


definition new_keys :: "string list \<Rightarrow> string list \<Rightarrow> string fset" where
  \<comment> \<open>the keys of a batch that the remote key list does not hold\<close>
  "new_keys remote keys = fset_of_list keys |-| fset_of_list remote"

definition plain_token :: "string \<Rightarrow> bool" where
  \<comment> \<open>a plain term or a qualifier: not empty, no whitespace, not starting with a quote\<close>
  "plain_token t \<longleftrightarrow> t \<noteq> [] \<and> list_all (\<lambda>c. \<not> is_space c) t \<and> hd t \<noteq> dquote"

definition quoted_token :: "string \<Rightarrow> bool" where
  \<comment> \<open>a double-quoted phrase: a quote, a body without quotes, a quote\<close>
  "quoted_token t \<longleftrightarrow>
     2 \<le> length t \<and> hd t = dquote \<and> last t = dquote \<and> dquote \<notin> set (butlast (tl t))"

definition token :: "string \<Rightarrow> bool" where
  "token t \<longleftrightarrow> plain_token t \<or> quoted_token t"

fun layout :: "(string \<times> string) list \<Rightarrow> string" where
  \<comment> \<open>a query written out: each token followed by its whitespace\<close>
  "layout [] = []"
| "layout ((t, ws) # rest) = t @ ws @ layout rest"

fun well_spaced :: "(string \<times> string) list \<Rightarrow> bool" where
  \<comment> \<open>the tokens are tokens and whitespace separates them; after the last it is optional\<close>
  "well_spaced [] = True"
| "well_spaced [(t, ws)] = (token t \<and> list_all is_space ws)"
| "well_spaced ((t, ws) # p # rest) =
     (token t \<and> ws \<noteq> [] \<and> list_all is_space ws \<and> well_spaced (p # rest))"

definition squeeze :: "string \<Rightarrow> string" where
  \<comment> \<open>\<open>" ".join(s.split())\<close>\<close>
  "squeeze s = join '' '' (split_ws s)"

definition canonical :: "string \<Rightarrow> bool" where
  \<comment> \<open>the shape of a token once its whitespace is squeezed: a word without blanks that
      does not start with a quote, or a quoted phrase\<close>
  "canonical c \<longleftrightarrow>
     (c \<noteq> [] \<and> CHR 0x20 \<notin> set c \<and> hd c \<noteq> dquote)
     \<or> (\<exists>b. c = dquote # b @ [dquote] \<and> dquote \<notin> set b)"

definition flagged :: "string \<Rightarrow> bool" where
  \<comment> \<open>a window holds an ellipsis or, in any letter case, the token \<open>YOUR_\<close>\<close>
  "flagged snippet \<longleftrightarrow> contains snippet ''...'' \<or> contains (upper snippet) ''YOUR_''"

definition occurs_at :: "string \<Rightarrow> string \<Rightarrow> nat \<Rightarrow> bool" where
  \<comment> \<open>the text of the key stands in the content at this index\<close>
  "occurs_at content key i \<longleftrightarrow> startswith (drop i content) key"

definition first_occurrence :: "string \<Rightarrow> string \<Rightarrow> nat \<Rightarrow> bool" where
  "first_occurrence content key i \<longleftrightarrow>
     occurs_at content key i \<and> list_all (\<lambda>j. \<not> occurs_at content key j) [0..<i]"

text \<open>
  The extraction as the specification words it, to compare the code with: every match is
  judged by the window of 45 characters at the place of that match, the matches that pass
  are kept, and the credentials kept are deduplicated. The words \<open>the following ~45
  characters\<close> are read in both ways: the characters after the match, and the characters
  from the start of the match.
\<close>

fun matches_of :: "string \<Rightarrow> (string \<times> string) list" where
  \<comment> \<open>the non-overlapping matches of the pattern, scanning from the left, each with the
      text that follows it\<close>
  "matches_of [] = []"
| "matches_of (c # cs) =
     (if match_here (c # cs) then (take 39 (c # cs), drop 38 cs) # matches_of (drop 38 cs)
      else matches_of cs)"

definition per_match_after :: "string \<Rightarrow> string list" where
  \<comment> \<open>a match is discarded when the 45 characters after it are flagged\<close>
  "per_match_after content =
     list_of_set (fset_of_list
       (map fst (filter (\<lambda>(key, rest). \<not> flagged (take 45 rest)) (matches_of content))))"

definition per_match_from :: "string \<Rightarrow> string list" where
  \<comment> \<open>a match is discarded when the 45 characters from its start are flagged\<close>
  "per_match_from content =
     list_of_set (fset_of_list
       (map fst (filter (\<lambda>(key, rest). \<not> flagged (take 45 (key @ rest))) (matches_of content))))"

section \<open>Example inputs\<close>

definition cfg0 :: config where
  \<comment> \<open>the \<open>n\<close>-th day after the first of January of year 1 starts at \<open>n * 86400000000\<close>;
      the first of January 2025 is day 739251, the first of January 2020 day 737424\<close>
  "cfg0 =
     \<lparr>fromisoformat =
        (\<lambda>s. if s = ''2025-01-01T00:00:00'' then Some (Naive (739251 * 86400000000)) else None),
      strptime = (\<lambda>s. if s = ''2024-12-31T00:00:00Z'' then Some (739250 * 86400000000)
                       else if s = ''2025-01-02T00:00:00Z'' then Some (739252 * 86400000000)
                       else if s = ''2020-01-01T00:00:00Z'' then Some (737424 * 86400000000)
                       else None),
      utcnow = 739253 * 86400000000,
      DATE_RANGE_DAYS = 730,
      FILE_PATH_BLACKLIST = [''readme'', ''docs'', ''doc/'', ''.md'', ''sample'', ''tutorial'']\<rparr>"

definition cp0 :: Checkpoint where
  "cp0 =
     \<lparr>last_scan_time = Some ''2025-01-01T00:00:00'', scanned_shas = {|''abc''|},
      processed_queries = {||}, wait_send_balancer = {||}, wait_send_gpt_load = {||}\<rparr>"

definition item0 :: "string \<Rightarrow> string \<Rightarrow> string \<Rightarrow> item" where
  \<comment> \<open>an item with the given id, path and push time\<close>
  "item0 sha path pushed =
     \<lparr>item_sha = Some sha, item_path = path, html_url = ''https://example.org/f'',
      repo_full_name = ''o/r'', repo_pushed_at = Some pushed\<rparr>"

definition key1 :: string where
  "key1 = ''AIzaSyA0123456789abcdefghijklmnopqrstu-''"

definition key2 :: string where
  "key2 = ''AIzaSyB0123456789abcdefghijklmnopqrstu-''"

definition key3 :: string where
  "key3 = ''AIzaSyC0123456789abcdefghijklmnopqrstu-''"

definition disk0 :: disk where
  "disk0 =
     \<lparr>checkpoint_file = Absent, checkpoint_writable = True,
      scanned_shas_file = Absent, scanned_shas_writable = True,
      keys_valid_file = [], detail_log_file = [], rate_limited_file = [],
      rate_limited_detail_file = [], keys_send_file = [], keys_send_detail_file = []\<rparr>"

definition state0 :: "Checkpoint \<Rightarrow> state" where
  \<comment> \<open>a state whose module variable refers to the given checkpoint\<close>
  "state0 cp =
     \<lparr>store = \<lparr>objs = (\<lambda>a. cp), next_addr = 1\<rparr>, checkpoint_ref = 0, files = disk0,
      saving_checkpoint = False, group_id_cache = Map.empty, group_id_cache_time = Map.empty\<rparr>"

definition sync0 :: sync_config where
  "sync0 =
     \<lparr>balancer_enabled = True, gpt_load_enabled = True, gpt_load_group_names = [''A'', ''B''],
      group_id_cache_ttl = 900\<rparr>"

definition ok_add :: "add_json response" where
  "ok_add = Response 200 (Json (AddObject (Some 0)))"

definition world0 :: world where
  \<comment> \<open>key pool A times out; key pool B knows the groups A and B and accepts keys for A only\<close>
  "world0 =
     \<lparr>strftime_now = ''2025-01-01 00:00:00'', utcnow_isoformat = ''2025-01-01T00:00:00'',
      time_time = 0,
      get_file_content = (\<lambda>it. Some (''key = '' @ key1 @ '' # end'')),
      generate_content = (\<lambda>k. Returns),
      get_config = Fails Timeout,
      put_config = (\<lambda>payload. Fails Timeout),
      get_groups = (\<lambda>i. Response 200 (Json (GroupsObject (Some 0) [(''A'', Some 1), (''B'', Some 2)]))),
      post_keys = (\<lambda>i. if i = 0 then ok_add else Response 500 NotJson)\<rparr>"

definition pending0 :: Checkpoint where
  \<comment> \<open>a checkpoint with one credential pending for each target\<close>
  "pending0 = empty_checkpoint\<lparr>wait_send_balancer := {|key1|}, wait_send_gpt_load := {|key1|}\<rparr>"

definition world1 :: world where
  \<comment> \<open>as \<open>world0\<close>, but key pool A already holds \<open>key1\<close> and key pool B accepts every
      submission\<close>
  "world1 =
     world0\<lparr>get_config := Response 200 (Json (ConfigObject (Some [key1]))),
            post_keys := (\<lambda>i. ok_add)\<rparr>"

definition cp1 :: Checkpoint where
  "cp1 = cp0\<lparr>processed_queries := {|''AIzaSy in:file''|}\<rparr>"

definition exn_429 :: exn where
  \<comment> \<open>an exception that only the last \<open>except\<close> clause accepts, with 429 in its text\<close>
  "exn_429 =
     \<lparr>exn_class = OtherException, exn_name = ''ResourceExhausted'',
      exn_str = ''429 Resource has been exhausted (e.g. check quota).''\<rparr>"

definition exn_pipe :: exn where
  "exn_pipe =
     \<lparr>exn_class = OtherException, exn_name = ''BrokenPipeError'',
      exn_str = ''[Errno 32] Broken pipe''\<rparr>"

definition exn_interrupt :: exn where
  \<comment> \<open>the user's interrupt, which no \<open>except\<close> clause of \<open>validate_gemini_key\<close> accepts\<close>
  "exn_interrupt =
     \<lparr>exn_class = BaseExceptionOnly, exn_name = ''KeyboardInterrupt'', exn_str = []\<rparr>"

definition world_429 :: world where
  "world_429 = world0\<lparr>generate_content := (\<lambda>k. Raises exn_429)\<rparr>"

definition world_pipe :: world where
  "world_pipe = world0\<lparr>generate_content := (\<lambda>k. Raises exn_pipe)\<rparr>"

definition world_interrupt :: world where
  "world_interrupt = world0\<lparr>generate_content := (\<lambda>k. Raises exn_interrupt)\<rparr>"

definition blank0 :: Checkpoint where
  \<comment> \<open>a checkpoint whose one scanned id ends with a blank\<close>
  "blank0 = empty_checkpoint\<lparr>scanned_shas := {|''abc ''|}\<rparr>"

definition steps0 :: "(step \<times> world) list" where
  "steps0 =
     [(AddScannedSha (Some ''def''), world0), (ProcessItem (item0 ''def'' ''src/a.py'' []), world0),
      (AddProcessedQuery ''AIzaSy in:file'', world0), (UpdateScanTime, world0),
      (SaveCheckpoint, world0), (BatchSend, world0)]"

definition readonly0 :: state where
  \<comment> \<open>two scanned ids in memory; the ledger on disk holds one of them and cannot be
      written\<close>
  "readonly0 =
     (state0 (empty_checkpoint\<lparr>scanned_shas := {|''abc'', ''def''|}\<rparr>))
       \<lparr>files := disk0\<lparr>scanned_shas_file := Holds (''abc'' @ [newline]),
                          scanned_shas_writable := False\<rparr>\<rparr>"

definition world_merge :: world where
  \<comment> \<open>key pool A holds \<open>key1\<close> and \<open>key2\<close> and echoes the same list whatever is put\<close>
  "world_merge =
     world0\<lparr>get_config := Response 200 (Json (ConfigObject (Some [key1, key2]))),
            put_config := (\<lambda>payload. Response 200 (Json (ConfigObject (Some [key1, key2]))))\<rparr>"

definition query_a :: "(string \<times> string) list" where
  \<comment> \<open>three tokens: a plain term, a quoted phrase, a qualifier\<close>
  "query_a =
     [(''AIzaSy'', [CHR 0x20, CHR 0x20]),
      (dquote # ''api  key'' @ [dquote], [CHR 0x20]),
      (''language:py'', [])]"

definition query_b :: "(string \<times> string) list" where
  \<comment> \<open>the same tokens in another order, with other whitespace\<close>
  "query_b =
     [(''language:py'', [CHR 0x09]),
      (''AIzaSy'', [CHR 0x20]),
      (dquote # ''api  key'' @ [dquote], [CHR 0x20, CHR 0x20])]"

definition content_twice :: string where
  \<comment> \<open>the same credential twice, both times on its own\<close>
  "content_twice = ''a = '' @ key1 @ '' ; b = '' @ key1 @ '' # end''"

definition content_placeholder :: string where
  \<comment> \<open>a credential immediately followed by a placeholder text\<close>
  "content_placeholder = ''a = '' @ key1 @ ''YOUR_API_KEY...''"

definition content_first_placeholder :: string where
  \<comment> \<open>the same credential twice, the first time immediately followed by a placeholder
      text, the second time on its own\<close>
  "content_first_placeholder =
     ''a = '' @ key1 @ ''YOUR_API_KEY...'' @ '' ; b = '' @ key1 @ '' # end''"

definition content_far_placeholder :: string where
  \<comment> \<open>a credential followed, seven blanks later, by a placeholder text\<close>
  "content_far_placeholder = ''a = '' @ key1 @ ''       '' @ ''YOUR_API_KEY...''"

section \<open>The skip filter\<close>

lemma time_filter_iff: "time_filter cfg it cp = time_hit cfg it cp"
  by (simp add: time_filter_def time_hit_def push_time_def last_scan_def
      split: option.splits datetime.splits)

lemma should_skip_item_time: "time_hit cfg it cp \<Longrightarrow> should_skip_item cfg it cp = Inr (True, ''time_filter'')"
  by (simp add: should_skip_item_def time_filter_iff)

lemma should_skip_item_sha:
  "\<not> time_hit cfg it cp \<Longrightarrow> sha_duplicate it cp
   \<Longrightarrow> should_skip_item cfg it cp = Inr (True, ''sha_duplicate'')"
  by (simp add: should_skip_item_def time_filter_iff)

lemma should_skip_item_age:
  "\<not> time_hit cfg it cp \<Longrightarrow> \<not> sha_duplicate it cp \<Longrightarrow> age_hit cfg it
   \<Longrightarrow> should_skip_item cfg it cp = Inr (True, ''age_filter'')"
  by (auto simp: should_skip_item_def time_filter_iff age_hit_def push_time_def
      split: option.splits if_splits sum.splits)

lemma should_skip_item_doc:
  "\<not> time_hit cfg it cp \<Longrightarrow> \<not> sha_duplicate it cp \<Longrightarrow> \<not> age_hit cfg it
   \<Longrightarrow> age_test_returns cfg it
   \<Longrightarrow> should_skip_item cfg it cp =
       (if doc_filter cfg it then Inr (True, ''doc_filter'') else Inr (False, []))"
  by (auto simp: should_skip_item_def time_filter_iff age_hit_def push_time_def
      age_test_returns_def doc_stage_def split: option.splits if_splits sum.splits)

lemma should_skip_item_raises:
  "\<not> time_hit cfg it cp \<Longrightarrow> \<not> sha_duplicate it cp \<Longrightarrow> \<not> age_test_returns cfg it
   \<Longrightarrow> should_skip_item cfg it cp = Inl ValueError
       \<or> should_skip_item cfg it cp = Inl OverflowError"
  by (auto simp: should_skip_item_def time_filter_iff age_test_returns_def age_bound_def
      timedelta_days_def datetime_sub_def split: option.splits if_splits sum.splits)

text \<open>
  C4. The skip filter tries its four predicates in the order time, duplicate, age,
  document, and the first that holds decides: an item whose push time is at or before the
  time of the last scan gives \<open>(True, time_filter)\<close> whatever else holds; an item whose id is
  in the scanned set, with no hit of the time filter, gives \<open>(True, sha_duplicate)\<close>; with
  neither, a push time before the retention window gives \<open>(True, age_filter)\<close>; with none of
  the three, where the age test raises nothing, a blacklisted path gives
  \<open>(True, doc_filter)\<close> and any other path \<open>(False, "")\<close>. The age test is the one place
  where the function can raise, and it is reached only when neither the time filter nor
  the duplicate filter has decided (lemma \<open>should_skip_item_raises\<close>).
\<close>

theorem should_skip_item_precedence:
  "(push_time cfg it = Some t \<and> last_scan cfg cp = Some l \<and> t \<le> l
      \<longrightarrow> should_skip_item cfg it cp = Inr (True, ''time_filter''))
   \<and> (\<not> time_hit cfg it cp \<and> item_sha it = Some sha \<and> sha |\<in>| scanned_shas cp
      \<longrightarrow> should_skip_item cfg it cp = Inr (True, ''sha_duplicate''))
   \<and> (\<not> time_hit cfg it cp \<and> \<not> sha_duplicate it cp \<and> age_hit cfg it
      \<longrightarrow> should_skip_item cfg it cp = Inr (True, ''age_filter''))
   \<and> (\<not> time_hit cfg it cp \<and> \<not> sha_duplicate it cp \<and> \<not> age_hit cfg it
       \<and> age_test_returns cfg it \<and> doc_filter cfg it
      \<longrightarrow> should_skip_item cfg it cp = Inr (True, ''doc_filter''))
   \<and> (\<not> time_hit cfg it cp \<and> \<not> sha_duplicate it cp \<and> \<not> age_hit cfg it
       \<and> age_test_returns cfg it \<and> \<not> doc_filter cfg it
      \<longrightarrow> should_skip_item cfg it cp = Inr (False, []))"
proof (intro conjI impI)
  assume "push_time cfg it = Some t \<and> last_scan cfg cp = Some l \<and> t \<le> l"
  then have "time_hit cfg it cp" by (simp add: time_hit_def)
  then show "should_skip_item cfg it cp = Inr (True, ''time_filter'')"
    by (rule should_skip_item_time)
next
  assume "\<not> time_hit cfg it cp \<and> item_sha it = Some sha \<and> sha |\<in>| scanned_shas cp"
  then show "should_skip_item cfg it cp = Inr (True, ''sha_duplicate'')"
    by (simp add: should_skip_item_sha sha_duplicate_def)
next
  assume "\<not> time_hit cfg it cp \<and> \<not> sha_duplicate it cp \<and> age_hit cfg it"
  then show "should_skip_item cfg it cp = Inr (True, ''age_filter'')"
    by (simp add: should_skip_item_age)
next
  assume "\<not> time_hit cfg it cp \<and> \<not> sha_duplicate it cp \<and> \<not> age_hit cfg it
       \<and> age_test_returns cfg it \<and> doc_filter cfg it"
  then show "should_skip_item cfg it cp = Inr (True, ''doc_filter'')"
    by (simp add: should_skip_item_doc)
next
  assume "\<not> time_hit cfg it cp \<and> \<not> sha_duplicate it cp \<and> \<not> age_hit cfg it
       \<and> age_test_returns cfg it \<and> \<not> doc_filter cfg it"
  then show "should_skip_item cfg it cp = Inr (False, [])"
    by (simp add: should_skip_item_doc)
qed

lemma cfg0_simps:
  "strptime cfg0 ''2024-12-31T00:00:00Z'' = Some 63871200000000000"
  "strptime cfg0 ''2025-01-02T00:00:00Z'' = Some 63871372800000000"
  "strptime cfg0 ''2020-01-01T00:00:00Z'' = Some 63713433600000000"
  "fromisoformat cfg0 ''2025-01-01T00:00:00'' = Some (Naive 63871286400000000)"
  "utcnow cfg0 = 63871459200000000" "DATE_RANGE_DAYS cfg0 = 730"
  by (simp_all add: cfg0_def)

lemma age_bound_cfg0: "age_bound cfg0 = Inr 63808387200000000"
  by (simp add: age_bound_def timedelta_days_def datetime_sub_def datetime_max_def cfg0_simps)

lemma example_hits:
  "push_time cfg0 (item0 ''abc'' ''docs/readme.md'' ''2024-12-31T00:00:00Z'')
     = Some 63871200000000000"
  "last_scan cfg0 cp0 = Some 63871286400000000"
  "\<not> time_hit cfg0 (item0 ''abc'' ''docs/readme.md'' ''2025-01-02T00:00:00Z'') cp0"
  "\<not> time_hit cfg0 (item0 ''def'' ''docs/readme.md'' ''2020-01-01T00:00:00Z'') (cp0\<lparr>last_scan_time := None\<rparr>)"
  "\<not> sha_duplicate (item0 ''def'' ''docs/readme.md'' ''2020-01-01T00:00:00Z'') (cp0\<lparr>last_scan_time := None\<rparr>)"
  "age_hit cfg0 (item0 ''def'' ''docs/readme.md'' ''2020-01-01T00:00:00Z'')"
  "\<not> time_hit cfg0 (item0 ''def'' path ''2025-01-02T00:00:00Z'') cp0"
  "\<not> sha_duplicate (item0 ''def'' path ''2025-01-02T00:00:00Z'') cp0"
  "\<not> age_hit cfg0 (item0 ''def'' path ''2025-01-02T00:00:00Z'')"
  "age_test_returns cfg0 (item0 ''def'' path ''2025-01-02T00:00:00Z'')"
  by (simp_all add: push_time_def last_scan_def time_hit_def age_hit_def sha_duplicate_def
      age_test_returns_def item0_def cp0_def cfg0_simps age_bound_cfg0)

lemma example_doc:
  "doc_filter cfg0 (item0 ''def'' ''docs/readme.md'' ''2025-01-02T00:00:00Z'')"
  "\<not> doc_filter cfg0 (item0 ''def'' ''src/a.py'' ''2025-01-02T00:00:00Z'')"
  by code_simp+

lemma should_skip_item_overflow:
  "should_skip_item (cfg0\<lparr>DATE_RANGE_DAYS := 740000\<rparr>)
     (item0 ''def'' ''docs/readme.md'' ''2025-01-02T00:00:00Z'') cp0 = Inl OverflowError"
  "should_skip_item cfg0 (item0 ''def'' ''docs/readme.md'' ''yesterday'') cp0 = Inl ValueError"
  by code_simp+

theorem should_skip_item_precedence_witness:
  "should_skip_item cfg0 (item0 ''abc'' ''docs/readme.md'' ''2024-12-31T00:00:00Z'') cp0
     = Inr (True, ''time_filter'')
   \<and> should_skip_item cfg0 (item0 ''abc'' ''docs/readme.md'' ''2025-01-02T00:00:00Z'') cp0
     = Inr (True, ''sha_duplicate'')
   \<and> should_skip_item cfg0 (item0 ''def'' ''docs/readme.md'' ''2020-01-01T00:00:00Z'')
       (cp0\<lparr>last_scan_time := None\<rparr>)
     = Inr (True, ''age_filter'')
   \<and> should_skip_item cfg0 (item0 ''def'' ''docs/readme.md'' ''2025-01-02T00:00:00Z'') cp0
     = Inr (True, ''doc_filter'')
   \<and> should_skip_item cfg0 (item0 ''def'' ''src/a.py'' ''2025-01-02T00:00:00Z'') cp0
     = Inr (False, [])"
proof (intro conjI)
  show "should_skip_item cfg0 (item0 ''abc'' ''docs/readme.md'' ''2024-12-31T00:00:00Z'') cp0
     = Inr (True, ''time_filter'')"
    using should_skip_item_precedence
      [where cfg = cfg0 and it = "item0 ''abc'' ''docs/readme.md'' ''2024-12-31T00:00:00Z''"
         and t = 63871200000000000 and cp = cp0 and l = 63871286400000000]
    by (simp add: example_hits)
  show "should_skip_item cfg0 (item0 ''abc'' ''docs/readme.md'' ''2025-01-02T00:00:00Z'') cp0
     = Inr (True, ''sha_duplicate'')"
    using should_skip_item_precedence
      [where cfg = cfg0 and it = "item0 ''abc'' ''docs/readme.md'' ''2025-01-02T00:00:00Z''"
         and cp = cp0 and sha = "''abc''"]
    by (simp add: example_hits) (simp add: item0_def cp0_def)
  show "should_skip_item cfg0 (item0 ''def'' ''docs/readme.md'' ''2020-01-01T00:00:00Z'')
       (cp0\<lparr>last_scan_time := None\<rparr>) = Inr (True, ''age_filter'')"
    using should_skip_item_precedence
      [where cfg = cfg0 and it = "item0 ''def'' ''docs/readme.md'' ''2020-01-01T00:00:00Z''"
         and cp = "cp0\<lparr>last_scan_time := None\<rparr>"]
    by (simp add: example_hits)
  show "should_skip_item cfg0 (item0 ''def'' ''docs/readme.md'' ''2025-01-02T00:00:00Z'') cp0
     = Inr (True, ''doc_filter'')"
    using should_skip_item_precedence
      [where cfg = cfg0 and it = "item0 ''def'' ''docs/readme.md'' ''2025-01-02T00:00:00Z''"
         and cp = cp0]
    by (simp add: example_hits example_doc)
  show "should_skip_item cfg0 (item0 ''def'' ''src/a.py'' ''2025-01-02T00:00:00Z'') cp0
     = Inr (False, [])"
    using should_skip_item_precedence
      [where cfg = cfg0 and it = "item0 ''def'' ''src/a.py'' ''2025-01-02T00:00:00Z''"
         and cp = cp0]
    by (simp add: example_hits example_doc)
qed

section \<open>Validation outcomes\<close>

text \<open>
  C10, as the code has it. When the liveness call returns, \<open>validate_gemini_key\<close> returns
  \<open>ok\<close>. When the call raises an instance of \<open>Exception\<close>, the function catches it and
  returns one of \<open>not_authorized_key\<close>, \<open>rate_limited\<close>, \<open>rate_limited:429\<close>, \<open>disabled\<close>
  or \<open>error:\<close> followed by the name of the exception's class, never \<open>ok\<close>. When the call
  raises an exception that is no instance of \<open>Exception\<close>, no clause catches it and it
  reaches the caller.
\<close>

theorem validate_gemini_key_closed:
  "validate_gemini_key Returns = Inr ''ok''
   \<and> (exn_class e \<noteq> BaseExceptionOnly \<longrightarrow>
        (\<exists>s. validate_gemini_key (Raises e) = Inr s \<and> s \<noteq> ''ok''
           \<and> (s \<in> {''not_authorized_key'', ''rate_limited'', ''rate_limited:429'', ''disabled''}
              \<or> s = ''error:'' @ exn_name e)))
   \<and> (exn_class e = BaseExceptionOnly \<longrightarrow> validate_gemini_key (Raises e) = Inl e)"
  by (cases "exn_class e") (simp_all add: validate_gemini_key_def)

theorem validate_gemini_key_closed_witness:
  "exn_class exn_429 \<noteq> BaseExceptionOnly
   \<and> (\<exists>s. validate_gemini_key (Raises exn_429) = Inr s \<and> s \<noteq> ''ok''
         \<and> (s \<in> {''not_authorized_key'', ''rate_limited'', ''rate_limited:429'', ''disabled''}
            \<or> s = ''error:'' @ exn_name exn_429))
   \<and> exn_class exn_interrupt = BaseExceptionOnly
   \<and> validate_gemini_key (Raises exn_interrupt) = Inl exn_interrupt"
proof -
  have c: "exn_class exn_429 \<noteq> BaseExceptionOnly" "exn_class exn_interrupt = BaseExceptionOnly"
    by (simp_all add: exn_429_def exn_interrupt_def)
  from validate_gemini_key_closed [of exn_429] c(1)
  have a: "\<exists>s. validate_gemini_key (Raises exn_429) = Inr s \<and> s \<noteq> ''ok''
         \<and> (s \<in> {''not_authorized_key'', ''rate_limited'', ''rate_limited:429'', ''disabled''}
            \<or> s = ''error:'' @ exn_name exn_429)"
    by blast
  from validate_gemini_key_closed [of exn_interrupt] c(2)
  have b: "validate_gemini_key (Raises exn_interrupt) = Inl exn_interrupt" by blast
  from a b c show ?thesis by blast
qed

text \<open>
  The claim as written, that no exception of the liveness call reaches the caller, fails
  for a \<open>KeyboardInterrupt\<close> raised while the call is under way: it leaves
  \<open>validate_gemini_key\<close> and \<open>process_item\<close>, with nothing written, and reaches \<open>main\<close>,
  whose handler for it saves the checkpoint and stops.
\<close>

theorem validate_gemini_key_keyboard_interrupt:
  "validate_gemini_key (Raises exn_interrupt) = Inl exn_interrupt
   \<and> validate_keys (generate_content world_interrupt) [key1] = Inl exn_interrupt
   \<and> map_option (map_sum id fst)
        (process_item sync0 world_interrupt (item0 ''def'' ''src/a.py'' [])
           (state0 empty_checkpoint))
      = Some (Inl exn_interrupt)"
  by code_simp

section \<open>Saving the checkpoint leaves the caller's object alone\<close>

lemma load_scanned_shas_truncated:
  "load_scanned_shas
     (disk0\<lparr>scanned_shas_file := Truncated (''abc'' @ [newline] @ ''def'' @ [newline])\<rparr>)
   = {|''abc'', ''def''|}"
  by code_simp

lemma load_checkpoint_Holds:
  "checkpoint_file d = Holds data \<Longrightarrow>
   load_checkpoint now_str h d =
     (Suc (next_addr h),
      \<lparr>objs = (objs h)(next_addr h := empty_checkpoint,
                Suc (next_addr h) := (from_dict data)\<lparr>scanned_shas := load_scanned_shas d\<rparr>),
       next_addr = Suc (Suc (next_addr h))\<rparr>,
      d)"
  by (simp add: alloc_def set_scanned_shas_def)

lemma save_checkpoint_unfold:
  "save_checkpoint now_str h d a =
     (let d1 = save_scanned_shas now_str (scanned_shas (objs h a)) d;
          d2 = d1\<lparr>checkpoint_file := Holds (to_dict (objs h a))\<rparr>
      in if checkpoint_writable d1
         then (\<lparr>objs = (objs h)(next_addr h := empty_checkpoint,
                         Suc (next_addr h) :=
                           (from_dict (to_dict (objs h a)))\<lparr>scanned_shas := load_scanned_shas d2\<rparr>),
                next_addr = Suc (Suc (next_addr h))\<rparr>, d2)
         else (h, d1))"
  by (simp add: load_checkpoint_Holds Let_def del: load_checkpoint.simps)

lemma save_checkpoint_objs:
  "a < next_addr h \<Longrightarrow> objs (fst (save_checkpoint now_str h d c)) a = objs h a"
  by (simp add: save_checkpoint_unfold Let_def del: save_checkpoint.simps)

lemma save_checkpoint_next: "next_addr h \<le> next_addr (fst (save_checkpoint now_str h d c))"
  by (simp add: save_checkpoint_unfold Let_def del: save_checkpoint.simps)

lemma call_save_checkpoint_fields:
  "checkpoint_ref (call_save_checkpoint w s) = checkpoint_ref s"
  "saving_checkpoint (call_save_checkpoint w s) = saving_checkpoint s"
  "group_id_cache (call_save_checkpoint w s) = group_id_cache s"
  by (simp_all add: call_save_checkpoint_def case_prod_beta del: save_checkpoint.simps)

lemma call_save_checkpoint_the_checkpoint:
  assumes "live s"
  shows "the_checkpoint (call_save_checkpoint w s) = the_checkpoint s"
proof -
  have "objs (fst (save_checkpoint (strftime_now w) (store s) (files s) (checkpoint_ref s)))
          (checkpoint_ref s) = objs (store s) (checkpoint_ref s)"
    using assms by (simp add: save_checkpoint_objs live_def del: save_checkpoint.simps)
  then show ?thesis
    by (simp add: call_save_checkpoint_def the_checkpoint_def case_prod_beta
        del: save_checkpoint.simps)
qed

lemma call_save_checkpoint_live: "live s \<Longrightarrow> live (call_save_checkpoint w s)"
  using save_checkpoint_next [of "store s" "strftime_now w" "files s" "checkpoint_ref s"]
  by (simp add: call_save_checkpoint_def live_def case_prod_beta del: save_checkpoint.simps)

section \<open>What each operation does to the checkpoint object\<close>

lemma modify_checkpoint_simps:
  "the_checkpoint (modify_checkpoint f s) = f (the_checkpoint s)"
  "checkpoint_ref (modify_checkpoint f s) = checkpoint_ref s"
  "saving_checkpoint (modify_checkpoint f s) = saving_checkpoint s"
  "files (modify_checkpoint f s) = files s"
  "group_id_cache (modify_checkpoint f s) = group_id_cache s"
  "group_id_cache_time (modify_checkpoint f s) = group_id_cache_time s"
  "live (modify_checkpoint f s) = live s"
  by (simp_all add: modify_checkpoint_def the_checkpoint_def live_def)

lemma set_flag_simps:
  "the_checkpoint (s\<lparr>saving_checkpoint := b\<rparr>) = the_checkpoint s"
  "live (s\<lparr>saving_checkpoint := b\<rparr>) = live s"
  "the_checkpoint (s\<lparr>files := d\<rparr>) = the_checkpoint s"
  "live (s\<lparr>files := d\<rparr>) = live s"
  by (simp_all add: the_checkpoint_def live_def)

lemma fetch_group_id_frame:
  "fetch_group_id resp t g s = (r, s1) \<Longrightarrow>
   store s1 = store s \<and> checkpoint_ref s1 = checkpoint_ref s \<and> files s1 = files s
   \<and> saving_checkpoint s1 = saving_checkpoint s"
  by (auto simp: fetch_group_id_def
      split: response.splits body.splits groups_json.splits if_splits option.splits)

lemma get_gpt_load_group_id_frame:
  "get_gpt_load_group_id sc resp t g s = (r, s1) \<Longrightarrow>
   store s1 = store s \<and> checkpoint_ref s1 = checkpoint_ref s \<and> files s1 = files s
   \<and> saving_checkpoint s1 = saving_checkpoint s"
  by (auto simp: get_gpt_load_group_id_def dest: fetch_group_id_frame
      split: option.splits if_splits)

lemma send_to_groups_frame:
  "send_to_groups sc w i names acc s = (r, s1) \<Longrightarrow>
   store s1 = store s \<and> checkpoint_ref s1 = checkpoint_ref s \<and> files s1 = files s
   \<and> saving_checkpoint s1 = saving_checkpoint s"
proof (induction sc w i names acc s rule: send_to_groups.induct)
  case (1 sc w i acc s)
  then show ?case by simp
next
  case (2 sc w i group_name rest all_success failed_groups s)
  obtain gid s' where g: "get_gpt_load_group_id sc (get_groups w i) (time_time w) group_name s = (gid, s')"
    by (cases "get_gpt_load_group_id sc (get_groups w i) (time_time w) group_name s")
  note fr = get_gpt_load_group_id_frame [OF g]
  show ?case
  proof (cases gid)
    case None
    with g 2 fr show ?thesis by simp
  next
    case (Some group_id)
    with g 2 fr show ?thesis by (simp split: if_splits)
  qed
qed

lemma send_gpt_load_worker_frame:
  "send_gpt_load_worker sc w keys s = (code, s1) \<Longrightarrow>
   store s1 = store s \<and> checkpoint_ref s1 = checkpoint_ref s
   \<and> saving_checkpoint s1 = saving_checkpoint s"
  by (auto simp: send_gpt_load_worker_def split: prod.splits if_splits
      dest: send_to_groups_frame)

lemma send_gpt_load_worker_checkpoint:
  assumes "send_gpt_load_worker sc w keys s = (code, s1)"
  shows "the_checkpoint s1 = the_checkpoint s" and "live s1 = live s"
  using send_gpt_load_worker_frame [OF assms] by (simp_all add: the_checkpoint_def live_def)

lemma flush_balancer_checkpoint:
  "the_checkpoint (flush_balancer sc w s) =
     (if wait_send_balancer (the_checkpoint s) \<noteq> {||} \<and> balancer_enabled sc
         \<and> result_code (send_balancer_worker w (list_of_set (wait_send_balancer (the_checkpoint s)))
               (files s)) = ''ok''
      then (the_checkpoint s)\<lparr>wait_send_balancer := {||}\<rparr> else the_checkpoint s)"
  by (simp add: flush_balancer_def Let_def modify_checkpoint_simps set_flag_simps)

lemma flush_balancer_frame:
  "live (flush_balancer sc w s) = live s"
  "saving_checkpoint (flush_balancer sc w s) = saving_checkpoint s"
  by (simp_all add: flush_balancer_def Let_def modify_checkpoint_simps set_flag_simps)

lemma flush_gpt_load_checkpoint:
  "the_checkpoint (flush_gpt_load sc w s) =
     (if wait_send_gpt_load (the_checkpoint s) \<noteq> {||} \<and> gpt_load_enabled sc
         \<and> fst (send_gpt_load_worker sc w (list_of_set (wait_send_gpt_load (the_checkpoint s))) s)
             = ''ok''
      then (the_checkpoint s)\<lparr>wait_send_gpt_load := {||}\<rparr> else the_checkpoint s)"
proof -
  obtain code s1 where
    r: "send_gpt_load_worker sc w (list_of_set (wait_send_gpt_load (the_checkpoint s))) s = (code, s1)"
    by (cases "send_gpt_load_worker sc w (list_of_set (wait_send_gpt_load (the_checkpoint s))) s")
  show ?thesis
    using send_gpt_load_worker_checkpoint(1) [OF r] r
    by (simp add: flush_gpt_load_def Let_def modify_checkpoint_simps)
qed

lemma flush_gpt_load_frame:
  "live (flush_gpt_load sc w s) = live s"
  "saving_checkpoint (flush_gpt_load sc w s) = saving_checkpoint s"
proof -
  obtain code s1 where
    r: "send_gpt_load_worker sc w (list_of_set (wait_send_gpt_load (the_checkpoint s))) s = (code, s1)"
    by (cases "send_gpt_load_worker sc w (list_of_set (wait_send_gpt_load (the_checkpoint s))) s")
  show "live (flush_gpt_load sc w s) = live s"
    using send_gpt_load_worker_checkpoint(2) [OF r] r
    by (simp add: flush_gpt_load_def Let_def modify_checkpoint_simps)
  show "saving_checkpoint (flush_gpt_load sc w s) = saving_checkpoint s"
    using send_gpt_load_worker_frame [OF r] r
    by (simp add: flush_gpt_load_def Let_def modify_checkpoint_simps)
qed

lemma batch_send_worker_returns:
  assumes "live s" and "\<not> saving_checkpoint s"
  shows "\<exists>s1. batch_send_worker sc w s = Some s1 \<and> live s1 \<and> \<not> saving_checkpoint s1
    \<and> the_checkpoint s1
        = the_checkpoint (flush_gpt_load sc w (flush_balancer sc w (s\<lparr>saving_checkpoint := True\<rparr>)))"
proof -
  let ?s3 = "flush_gpt_load sc w (flush_balancer sc w (s\<lparr>saving_checkpoint := True\<rparr>))"
  have l3: "live ?s3"
    using assms(1) by (simp add: flush_gpt_load_frame flush_balancer_frame set_flag_simps)
  have "batch_send_worker sc w s = Some ((call_save_checkpoint w ?s3)\<lparr>saving_checkpoint := False\<rparr>)"
    using assms(2) by (simp add: batch_send_worker_def Let_def)
  moreover have "live ((call_save_checkpoint w ?s3)\<lparr>saving_checkpoint := False\<rparr>)"
    using call_save_checkpoint_live [OF l3] by (simp add: set_flag_simps)
  moreover have "the_checkpoint ((call_save_checkpoint w ?s3)\<lparr>saving_checkpoint := False\<rparr>)
      = the_checkpoint ?s3"
    using call_save_checkpoint_the_checkpoint [OF l3] by (simp add: set_flag_simps)
  ultimately show ?thesis by simp
qed

lemma add_keys_to_queue_returns:
  assumes "live s" and "\<not> saving_checkpoint s"
  shows "\<exists>s1. add_keys_to_queue sc w keys s = Some s1 \<and> live s1 \<and> \<not> saving_checkpoint s1
    \<and> the_checkpoint s1 =
        (the_checkpoint s)
          \<lparr>wait_send_balancer :=
             (if balancer_enabled sc then wait_send_balancer (the_checkpoint s) |\<union>| fset_of_list keys
              else wait_send_balancer (the_checkpoint s)),
           wait_send_gpt_load :=
             (if gpt_load_enabled sc then wait_send_gpt_load (the_checkpoint s) |\<union>| fset_of_list keys
              else wait_send_gpt_load (the_checkpoint s))\<rparr>"
proof (cases "keys = []")
  case True
  with assms show ?thesis by (simp add: add_keys_to_queue_def)
next
  case False
  define s3 where "s3 =
    (let s1 = s\<lparr>saving_checkpoint := True\<rparr>;
         s2 = (if balancer_enabled sc
               then modify_checkpoint
                      (\<lambda>cp. cp\<lparr>wait_send_balancer := wait_send_balancer cp |\<union>| fset_of_list keys\<rparr>) s1
               else s1)
     in (if gpt_load_enabled sc
         then modify_checkpoint
                (\<lambda>cp. cp\<lparr>wait_send_gpt_load := wait_send_gpt_load cp |\<union>| fset_of_list keys\<rparr>) s2
         else s2))"
  have l3: "live s3"
    using assms(1) by (simp add: s3_def Let_def modify_checkpoint_simps set_flag_simps)
  have c3: "the_checkpoint s3 =
        (the_checkpoint s)
          \<lparr>wait_send_balancer :=
             (if balancer_enabled sc then wait_send_balancer (the_checkpoint s) |\<union>| fset_of_list keys
              else wait_send_balancer (the_checkpoint s)),
           wait_send_gpt_load :=
             (if gpt_load_enabled sc then wait_send_gpt_load (the_checkpoint s) |\<union>| fset_of_list keys
              else wait_send_gpt_load (the_checkpoint s))\<rparr>"
    by (simp add: s3_def Let_def modify_checkpoint_simps set_flag_simps)
  have "add_keys_to_queue sc w keys s = Some ((call_save_checkpoint w s3)\<lparr>saving_checkpoint := False\<rparr>)"
    using assms(2) False by (simp add: add_keys_to_queue_def s3_def Let_def)
  moreover have "live ((call_save_checkpoint w s3)\<lparr>saving_checkpoint := False\<rparr>)"
    using call_save_checkpoint_live [OF l3] by (simp add: set_flag_simps)
  moreover have "the_checkpoint ((call_save_checkpoint w s3)\<lparr>saving_checkpoint := False\<rparr>)
      = the_checkpoint s3"
    using call_save_checkpoint_the_checkpoint [OF l3] by (simp add: set_flag_simps)
  ultimately show ?thesis using c3 False by simp
qed

section \<open>The periodic flush\<close>

text \<open>
  C7. A tick of the periodic flush that finds the lock free returns, and for each enabled
  target with a non-empty pending set: when the bulk send returns \<open>ok\<close> the pending set of
  that target is cleared, and on any other result code it is left as it was, so the next
  tick sends the same credentials again. The pending set of a target that is disabled, or
  empty, is left as it was.
\<close>

theorem batch_send_worker_pending:
  assumes "live s" and "\<not> saving_checkpoint s"
  shows "\<exists>s1. batch_send_worker sc w s = Some s1
    \<and> wait_send_balancer (the_checkpoint s1) =
        (if balancer_enabled sc \<and> wait_send_balancer (the_checkpoint s) \<noteq> {||}
         then (if result_code (send_balancer_worker w
                     (list_of_set (wait_send_balancer (the_checkpoint s))) (files s)) = ''ok''
               then {||} else wait_send_balancer (the_checkpoint s))
         else wait_send_balancer (the_checkpoint s))
    \<and> wait_send_gpt_load (the_checkpoint s1) =
        (if gpt_load_enabled sc \<and> wait_send_gpt_load (the_checkpoint s) \<noteq> {||}
         then (if fst (send_gpt_load_worker sc w
                     (list_of_set (wait_send_gpt_load (the_checkpoint s)))
                     (flush_balancer sc w (s\<lparr>saving_checkpoint := True\<rparr>))) = ''ok''
               then {||} else wait_send_gpt_load (the_checkpoint s))
         else wait_send_gpt_load (the_checkpoint s))"
proof -
  let ?s1 = "s\<lparr>saving_checkpoint := True\<rparr>"
  let ?s2 = "flush_balancer sc w ?s1"
  obtain s' where r: "batch_send_worker sc w s = Some s'"
    and c: "the_checkpoint s' = the_checkpoint (flush_gpt_load sc w ?s2)"
    using batch_send_worker_returns [OF assms] by blast
  have g2: "wait_send_gpt_load (the_checkpoint ?s2) = wait_send_gpt_load (the_checkpoint s)"
    by (simp add: flush_balancer_checkpoint set_flag_simps)
  have b3: "wait_send_balancer (the_checkpoint (flush_gpt_load sc w ?s2))
      = wait_send_balancer (the_checkpoint ?s2)"
    by (simp add: flush_gpt_load_checkpoint)
  have b: "wait_send_balancer (the_checkpoint s') =
        (if balancer_enabled sc \<and> wait_send_balancer (the_checkpoint s) \<noteq> {||}
         then (if result_code (send_balancer_worker w
                     (list_of_set (wait_send_balancer (the_checkpoint s))) (files s)) = ''ok''
               then {||} else wait_send_balancer (the_checkpoint s))
         else wait_send_balancer (the_checkpoint s))"
    unfolding c b3 by (simp add: flush_balancer_checkpoint set_flag_simps)
  have g: "wait_send_gpt_load (the_checkpoint s') =
        (if gpt_load_enabled sc \<and> wait_send_gpt_load (the_checkpoint s) \<noteq> {||}
         then (if fst (send_gpt_load_worker sc w
                     (list_of_set (wait_send_gpt_load (the_checkpoint s))) ?s2) = ''ok''
               then {||} else wait_send_gpt_load (the_checkpoint s))
         else wait_send_gpt_load (the_checkpoint s))"
    unfolding c by (simp add: flush_gpt_load_checkpoint g2)
  from r b g show ?thesis by blast
qed

lemma state0_ready: "live (state0 cp)" "\<not> saving_checkpoint (state0 cp)"
  by (simp_all add: live_def state0_def)

lemma flush_examples:
  "wait_send_balancer (the_checkpoint (state0 pending0)) = {|key1|}"
  "wait_send_gpt_load (the_checkpoint (state0 pending0)) = {|key1|}"
  "result_code (send_balancer_worker world0
     (list_of_set {|key1|})
     (files (state0 pending0))) = ''timeout''"
  "fst (send_gpt_load_worker sync0 world0
     (list_of_set {|key1|})
     (flush_balancer sync0 world0 ((state0 pending0)\<lparr>saving_checkpoint := True\<rparr>)))
   = ''partial_failure''"
  "result_code (send_balancer_worker world1
     (list_of_set {|key1|})
     (files (state0 pending0))) = ''ok''"
  "fst (send_gpt_load_worker sync0 world1
     (list_of_set {|key1|})
     (flush_balancer sync0 world1 ((state0 pending0)\<lparr>saving_checkpoint := True\<rparr>)))
   = ''ok''"
  "balancer_enabled sync0" "gpt_load_enabled sync0"
  by code_simp+

theorem batch_send_worker_pending_witness:
  "(\<exists>s1. batch_send_worker sync0 world0 (state0 pending0) = Some s1
      \<and> wait_send_balancer (the_checkpoint s1) = {|key1|}
      \<and> wait_send_gpt_load (the_checkpoint s1) = {|key1|})
   \<and> (\<exists>s1. batch_send_worker sync0 world1 (state0 pending0) = Some s1
      \<and> wait_send_balancer (the_checkpoint s1) = {||}
      \<and> wait_send_gpt_load (the_checkpoint s1) = {||})"
proof
  show "\<exists>s1. batch_send_worker sync0 world0 (state0 pending0) = Some s1
      \<and> wait_send_balancer (the_checkpoint s1) = {|key1|}
      \<and> wait_send_gpt_load (the_checkpoint s1) = {|key1|}"
    using batch_send_worker_pending [where s = "state0 pending0" and sc = sync0 and w = world0, OF state0_ready]
    by (simp add: flush_examples)
  show "\<exists>s1. batch_send_worker sync0 world1 (state0 pending0) = Some s1
      \<and> wait_send_balancer (the_checkpoint s1) = {||}
      \<and> wait_send_gpt_load (the_checkpoint s1) = {||}"
    using batch_send_worker_pending [where s = "state0 pending0" and sc = sync0 and w = world1, OF state0_ready]
    by (simp add: flush_examples)
qed

section \<open>The sets of the checkpoint\<close>

lemma process_item_returns:
  assumes "live s" and "\<not> saving_checkpoint s"
  shows "(\<exists>e. process_item sc w it s = Some (Inl e))
    \<or> (\<exists>r s1. process_item sc w it s = Some (Inr (r, s1)) \<and> live s1 \<and> \<not> saving_checkpoint s1
        \<and> scanned_shas (the_checkpoint s1) = scanned_shas (the_checkpoint s)
        \<and> processed_queries (the_checkpoint s1) = processed_queries (the_checkpoint s))"
proof (cases "get_file_content w it")
  case None
  with assms show ?thesis by (simp add: process_item_def)
next
  case (Some content)
  show ?thesis
  proof (cases "content = [] \<or> candidate_keys content = []")
    case True
    with Some assms show ?thesis by (auto simp: process_item_def Let_def)
  next
    case False
    show ?thesis
    proof (cases "validate_keys (generate_content w) (candidate_keys content)")
      case (Inl e)
      with Some False show ?thesis by (simp add: process_item_def Let_def)
    next
      case (Inr p)
      then obtain valid_keys rate_limited_keys where
        v: "validate_keys (generate_content w) (candidate_keys content)
              = Inr (valid_keys, rate_limited_keys)"
        by (cases p) simp
      let ?s' = "s\<lparr>files := save_valid_keys (strftime_now w) (html_url it) valid_keys (files s)\<rparr>"
      show ?thesis
      proof (cases "valid_keys = []")
        case True
        with Some False v assms show ?thesis
          by (simp add: process_item_def Let_def set_flag_simps)
      next
        case nonempty: False
        have "live ?s'" and "\<not> saving_checkpoint ?s'"
          using assms by (simp_all add: set_flag_simps)
        from add_keys_to_queue_returns [OF this, of sc w valid_keys]
        obtain s1 where a: "add_keys_to_queue sc w valid_keys ?s' = Some s1"
          and l: "live s1" and f: "\<not> saving_checkpoint s1"
          and c: "scanned_shas (the_checkpoint s1) = scanned_shas (the_checkpoint s)"
                 "processed_queries (the_checkpoint s1) = processed_queries (the_checkpoint s)"
          by (auto simp: set_flag_simps)
        with Some False v nonempty show ?thesis
          by (simp add: process_item_def Let_def set_flag_simps)
      qed
    qed
  qed
qed

lemma exec_grows:
  assumes "live s" and "\<not> saving_checkpoint s"
  shows "\<exists>s1. exec sc x s = Some s1 \<and> live s1 \<and> \<not> saving_checkpoint s1
    \<and> scanned_shas (the_checkpoint s) |\<subseteq>| scanned_shas (the_checkpoint s1)
    \<and> processed_queries (the_checkpoint s) |\<subseteq>| processed_queries (the_checkpoint s1)"
proof -
  obtain st w where x: "x = (st, w)" by (cases x)
  show ?thesis
  proof (cases st)
    case (AddScannedSha sha)
    with x assms show ?thesis
      by (auto simp: modify_checkpoint_simps add_scanned_sha_def split: option.splits)
  next
    case (AddProcessedQuery q)
    with x assms show ?thesis
      by (auto simp: modify_checkpoint_simps add_processed_query_def)
  next
    case UpdateScanTime
    with x assms show ?thesis
      by (simp add: modify_checkpoint_simps update_scan_time_def)
  next
    case SaveCheckpoint
    with x assms show ?thesis
      by (simp add: call_save_checkpoint_live call_save_checkpoint_the_checkpoint
          call_save_checkpoint_fields)
  next
    case (ProcessItem it)
    from process_item_returns [OF assms, of sc w it] ProcessItem x assms show ?thesis
      by auto
  next
    case BatchSend
    from batch_send_worker_returns [OF assms, of sc w] BatchSend x show ?thesis
      by (auto simp: flush_gpt_load_checkpoint flush_balancer_checkpoint set_flag_simps)
  qed
qed

lemma run_grows:
  "live s \<Longrightarrow> \<not> saving_checkpoint s \<Longrightarrow>
   \<exists>s1. run sc xs s = Some s1 \<and> live s1 \<and> \<not> saving_checkpoint s1
    \<and> scanned_shas (the_checkpoint s) |\<subseteq>| scanned_shas (the_checkpoint s1)
    \<and> processed_queries (the_checkpoint s) |\<subseteq>| processed_queries (the_checkpoint s1)"
proof (induction xs arbitrary: s)
  case Nil
  then show ?case by simp
next
  case (Cons x xs)
  from exec_grows [OF Cons.prems, of sc x]
  obtain s1 where e: "exec sc x s = Some s1" and l: "live s1" and f: "\<not> saving_checkpoint s1"
    and g: "scanned_shas (the_checkpoint s) |\<subseteq>| scanned_shas (the_checkpoint s1)"
           "processed_queries (the_checkpoint s) |\<subseteq>| processed_queries (the_checkpoint s1)"
    by blast
  from Cons.IH [OF l f]
  obtain s2 where r: "run sc xs s1 = Some s2" and l2: "live s2" and f2: "\<not> saving_checkpoint s2"
    and g2: "scanned_shas (the_checkpoint s1) |\<subseteq>| scanned_shas (the_checkpoint s2)"
            "processed_queries (the_checkpoint s1) |\<subseteq>| processed_queries (the_checkpoint s2)"
    by blast
  from e r l2 f2 g g2 show ?case by auto
qed

text \<open>
  C9. The four sets of the checkpoint are sets: adding an id that is in \<open>scanned_shas\<close>, or a
  query that is in \<open>processed_queries\<close>, changes nothing; enqueueing a credential a second
  time returns and leaves both pending sets, and their sizes, as the first call left them;
  enqueueing leaves the pending set of a disabled target as it was; and a run of the
  program (any sequence of its steps, from a state where the lock is free) returns and
  removes no element from \<open>scanned_shas\<close> or \<open>processed_queries\<close>.
\<close>

theorem checkpoint_sets:
  "(sha |\<in>| scanned_shas cp \<longrightarrow> add_scanned_sha (Some sha) cp = cp)
   \<and> (q |\<in>| processed_queries cp \<longrightarrow> add_processed_query q cp = cp)
   \<and> (live s \<and> \<not> saving_checkpoint s \<longrightarrow>
        (\<exists>s1 s2. add_keys_to_queue sc w [key] s = Some s1
           \<and> add_keys_to_queue sc w' [key] s1 = Some s2
           \<and> wait_send_balancer (the_checkpoint s2) = wait_send_balancer (the_checkpoint s1)
           \<and> wait_send_gpt_load (the_checkpoint s2) = wait_send_gpt_load (the_checkpoint s1)
           \<and> fcard (wait_send_balancer (the_checkpoint s2))
               = fcard (wait_send_balancer (the_checkpoint s1))
           \<and> fcard (wait_send_gpt_load (the_checkpoint s2))
               = fcard (wait_send_gpt_load (the_checkpoint s1))))
   \<and> (live s \<and> \<not> saving_checkpoint s \<longrightarrow>
        (\<exists>s1. add_keys_to_queue sc w keys s = Some s1
           \<and> (\<not> balancer_enabled sc \<longrightarrow>
                wait_send_balancer (the_checkpoint s1) = wait_send_balancer (the_checkpoint s))
           \<and> (\<not> gpt_load_enabled sc \<longrightarrow>
                wait_send_gpt_load (the_checkpoint s1) = wait_send_gpt_load (the_checkpoint s))))
   \<and> (live s \<and> \<not> saving_checkpoint s \<longrightarrow>
        (\<exists>s1. run sc steps s = Some s1
           \<and> scanned_shas (the_checkpoint s) |\<subseteq>| scanned_shas (the_checkpoint s1)
           \<and> processed_queries (the_checkpoint s) |\<subseteq>| processed_queries (the_checkpoint s1)))"
proof (intro conjI impI)
  assume "sha |\<in>| scanned_shas cp"
  then have "finsert sha (scanned_shas cp) = scanned_shas cp" by auto
  then show "add_scanned_sha (Some sha) cp = cp" by (simp add: add_scanned_sha_def)
next
  assume "q |\<in>| processed_queries cp"
  then have "finsert q (processed_queries cp) = processed_queries cp" by auto
  then show "add_processed_query q cp = cp" by (simp add: add_processed_query_def)
next
  assume a: "live s \<and> \<not> saving_checkpoint s"
  from add_keys_to_queue_returns [of s sc w "[key]"] a
  obtain s1 where 1: "add_keys_to_queue sc w [key] s = Some s1"
    and l1: "live s1" and f1: "\<not> saving_checkpoint s1"
    and c1: "the_checkpoint s1 =
        (the_checkpoint s)
          \<lparr>wait_send_balancer :=
             (if balancer_enabled sc then wait_send_balancer (the_checkpoint s) |\<union>| fset_of_list [key]
              else wait_send_balancer (the_checkpoint s)),
           wait_send_gpt_load :=
             (if gpt_load_enabled sc then wait_send_gpt_load (the_checkpoint s) |\<union>| fset_of_list [key]
              else wait_send_gpt_load (the_checkpoint s))\<rparr>"
    by blast
  from add_keys_to_queue_returns [OF l1 f1, of sc w' "[key]"]
  obtain s2 where 2: "add_keys_to_queue sc w' [key] s1 = Some s2"
    and c2: "the_checkpoint s2 =
        (the_checkpoint s1)
          \<lparr>wait_send_balancer :=
             (if balancer_enabled sc then wait_send_balancer (the_checkpoint s1) |\<union>| fset_of_list [key]
              else wait_send_balancer (the_checkpoint s1)),
           wait_send_gpt_load :=
             (if gpt_load_enabled sc then wait_send_gpt_load (the_checkpoint s1) |\<union>| fset_of_list [key]
              else wait_send_gpt_load (the_checkpoint s1))\<rparr>"
    by blast
  have b: "wait_send_balancer (the_checkpoint s2) = wait_send_balancer (the_checkpoint s1)"
    unfolding c2 unfolding c1 by auto
  have g: "wait_send_gpt_load (the_checkpoint s2) = wait_send_gpt_load (the_checkpoint s1)"
    unfolding c2 unfolding c1 by auto
  from 1 2 b g show "\<exists>s1 s2. add_keys_to_queue sc w [key] s = Some s1
           \<and> add_keys_to_queue sc w' [key] s1 = Some s2
           \<and> wait_send_balancer (the_checkpoint s2) = wait_send_balancer (the_checkpoint s1)
           \<and> wait_send_gpt_load (the_checkpoint s2) = wait_send_gpt_load (the_checkpoint s1)
           \<and> fcard (wait_send_balancer (the_checkpoint s2))
               = fcard (wait_send_balancer (the_checkpoint s1))
           \<and> fcard (wait_send_gpt_load (the_checkpoint s2))
               = fcard (wait_send_gpt_load (the_checkpoint s1))"
    by simp
next
  assume a: "live s \<and> \<not> saving_checkpoint s"
  from add_keys_to_queue_returns [of s sc w keys] a
  show "\<exists>s1. add_keys_to_queue sc w keys s = Some s1
           \<and> (\<not> balancer_enabled sc \<longrightarrow>
                wait_send_balancer (the_checkpoint s1) = wait_send_balancer (the_checkpoint s))
           \<and> (\<not> gpt_load_enabled sc \<longrightarrow>
                wait_send_gpt_load (the_checkpoint s1) = wait_send_gpt_load (the_checkpoint s))"
    by auto
next
  assume a: "live s \<and> \<not> saving_checkpoint s"
  from run_grows [of s sc steps] a
  show "\<exists>s1. run sc steps s = Some s1
           \<and> scanned_shas (the_checkpoint s) |\<subseteq>| scanned_shas (the_checkpoint s1)
           \<and> processed_queries (the_checkpoint s) |\<subseteq>| processed_queries (the_checkpoint s1)"
    by blast
qed

lemma cp1_members:
  "''abc'' |\<in>| scanned_shas cp1" "''AIzaSy in:file'' |\<in>| processed_queries cp1"
  by (simp_all add: cp1_def cp0_def)

theorem checkpoint_sets_witness:
  "add_scanned_sha (Some ''abc'') cp1 = cp1
   \<and> add_processed_query ''AIzaSy in:file'' cp1 = cp1
   \<and> (\<exists>s1 s2. add_keys_to_queue (sync0\<lparr>gpt_load_enabled := False\<rparr>) world0 [key1] (state0 cp1) = Some s1
         \<and> add_keys_to_queue (sync0\<lparr>gpt_load_enabled := False\<rparr>) world1 [key1] s1 = Some s2
         \<and> wait_send_balancer (the_checkpoint s2) = wait_send_balancer (the_checkpoint s1)
         \<and> wait_send_gpt_load (the_checkpoint s2) = wait_send_gpt_load (the_checkpoint s1)
         \<and> fcard (wait_send_balancer (the_checkpoint s2))
             = fcard (wait_send_balancer (the_checkpoint s1))
         \<and> fcard (wait_send_gpt_load (the_checkpoint s2))
             = fcard (wait_send_gpt_load (the_checkpoint s1)))
   \<and> (\<exists>s1. add_keys_to_queue (sync0\<lparr>gpt_load_enabled := False\<rparr>) world0 [key1, key2] (state0 cp1)
             = Some s1
         \<and> wait_send_gpt_load (the_checkpoint s1) = wait_send_gpt_load (the_checkpoint (state0 cp1)))
   \<and> (\<exists>s1. run (sync0\<lparr>gpt_load_enabled := False\<rparr>) steps0 (state0 cp1) = Some s1
         \<and> scanned_shas (the_checkpoint (state0 cp1)) |\<subseteq>| scanned_shas (the_checkpoint s1)
         \<and> processed_queries (the_checkpoint (state0 cp1))
             |\<subseteq>| processed_queries (the_checkpoint s1))"
  using checkpoint_sets [where sha = "''abc''" and cp = cp1 and q = "''AIzaSy in:file''"
      and s = "state0 cp1" and sc = "sync0\<lparr>gpt_load_enabled := False\<rparr>" and w = world0
      and w' = world1 and key = key1 and keys = "[key1, key2]" and steps = steps0]
  by (simp add: cp1_members state0_ready sync0_def)

section \<open>The buckets of the validation outcomes\<close>

text \<open>
  C1, at the inputs where the code departs from it. A credential whose liveness call
  raises an exception with 429 in its text gets the outcome \<open>rate_limited:429\<close>, which the
  validation loop of \<open>process_item\<close> puts in neither bucket: nothing is written to the
  rate-limited files. And an outcome \<open>error:<class>\<close> whose class name contains \<open>ok\<close> (here
  \<open>BrokenPipeError\<close>) is taken for a success: the credential is written to the valid-key
  file and enqueued for both targets.
\<close>

theorem process_item_rate_limited_429:
  "validate_gemini_key (Raises exn_429) = Inr ''rate_limited:429''
   \<and> bucket_of_result ''rate_limited:429'' = Invalid
   \<and> bucket_of_result ''rate_limited'' = RateLimited
   \<and> candidate_keys (''key = '' @ key1 @ '' # end'') = [key1]
   \<and> validate_keys (generate_content world_429) [key1] = Inr ([], [])
   \<and> map_option (map_sum id (\<lambda>(counts, s1). (counts, rate_limited_file (files s1),
          rate_limited_detail_file (files s1), keys_valid_file (files s1))))
        (process_item sync0 world_429 (item0 ''def'' ''src/a.py'' []) (state0 empty_checkpoint))
      = Some (Inr ((0, 0), [], [], []))
   \<and> validate_gemini_key (Raises exn_pipe) = Inr ''error:BrokenPipeError''
   \<and> bucket_of_result ''error:BrokenPipeError'' = Valid
   \<and> map_option (map_sum id (\<lambda>(counts, s1). (counts, keys_valid_file (files s1),
          wait_send_balancer (the_checkpoint s1), wait_send_gpt_load (the_checkpoint s1))))
        (process_item sync0 world_pipe (item0 ''def'' ''src/a.py'' []) (state0 empty_checkpoint))
      = Some (Inr ((1, 0), [key1], {|key1|}, {|key1|}))"
  by code_simp

section \<open>Saving and reloading\<close>

text \<open>
  C2, at an input where the code departs from it. \<open>save_checkpoint\<close> assigns the reloaded
  checkpoint to its own parameter only, so the caller's object is what it was before the
  call. For a checkpoint whose scanned id ends with a blank, the ledger gives back the id
  without the blank: after the call the object in memory still holds the id as it was,
  and it differs from what a reload of the files just written gives. Likewise when the
  ledger cannot be written: the object in memory keeps both its ids, the files hold one.
\<close>

theorem save_checkpoint_keeps_object:
  "the_checkpoint (call_save_checkpoint world0 (state0 blank0)) = blank0
   \<and> scanned_shas (the_checkpoint (call_save_checkpoint world0 (state0 blank0))) = {|''abc ''|}
   \<and> load_scanned_shas (files (call_save_checkpoint world0 (state0 blank0))) = {|''abc''|}
   \<and> (case load_checkpoint (strftime_now world0)
              (store (call_save_checkpoint world0 (state0 blank0)))
              (files (call_save_checkpoint world0 (state0 blank0))) of
         (a, h, d) \<Rightarrow> scanned_shas (objs h a)) = {|''abc''|}
   \<and> the_checkpoint (call_save_checkpoint world0 (state0 blank0))
       \<noteq> (case load_checkpoint (strftime_now world0)
              (store (call_save_checkpoint world0 (state0 blank0)))
              (files (call_save_checkpoint world0 (state0 blank0))) of
         (a, h, d) \<Rightarrow> objs h a)
   \<and> scanned_shas (the_checkpoint (call_save_checkpoint world0 readonly0)) = {|''abc'', ''def''|}
   \<and> load_scanned_shas (files (call_save_checkpoint world0 readonly0)) = {|''abc''|}"
  by code_simp

section \<open>The send results\<close>

lemma map_of_tabulate:
  "key \<in> set keys \<Longrightarrow> map_of (map (\<lambda>k. (k, f k)) keys) key = Some (f key)"
  by (induction keys) auto

lemma save_keys_send_result_file:
  "keys_send_file (save_keys_send_result stamp keys (map_of (map (\<lambda>k. (k, f k)) keys)) d)
     = keys_send_file d @ map (\<lambda>key. key @ '' | '' @ f key) keys"
  by (simp add: save_keys_send_result_def result_of_def map_of_tabulate)

lemma log_all_file:
  "keys_send_file (log_all stamp keys code d)
     = keys_send_file d @ map (\<lambda>key. key @ '' | '' @ code) keys"
  unfolding log_all_def by (rule save_keys_send_result_file)

subsection \<open>Key pool B\<close>




subsection \<open>Key pool A\<close>

lemma merge_keys_eq:
  "merge_keys keys (E, N) = (E |\<union>| fset_of_list keys, N |\<union>| (fset_of_list keys |-| E))"
  by (induction keys arbitrary: E N) auto

lemma merge_keys_new:
  "merge_keys keys (fset_of_list remote, {||})
     = (fset_of_list remote |\<union>| fset_of_list keys, new_keys remote keys)"
  by (simp add: merge_keys_eq new_keys_def)

lemma verify_update_result:
  "result_code (verify_update stamp payload new entry d)
     = (if new |\<subseteq>| fset_of_list (api_keys_of entry) then ''ok'' else ''update_failed'')"
  "put_payload (verify_update stamp payload new entry d) = Some payload"
  by (auto simp: verify_update_def Let_def list_of_set_def filter_empty_conv)

lemma verify_update_file:
  "keys_send_file (files_after (verify_update stamp payload new entry d))
     = keys_send_file d
       @ map (\<lambda>key. key @ '' | '' @
               (if key |\<in>| fset_of_list (api_keys_of entry) then ''ok'' else ''update_failed''))
           (list_of_set new)"
proof -
  let ?up = "fset_of_list (api_keys_of entry)"
  let ?f = "\<lambda>key. if key \<in> set (filter (\<lambda>key. key |\<notin>| ?up) (list_of_set new))
                   then ''update_failed'' else ''ok''"
  have same: "map (\<lambda>key. key @ '' | '' @ ?f key) (list_of_set new)
      = map (\<lambda>key. key @ '' | '' @ (if key |\<in>| ?up then ''ok'' else ''update_failed''))
          (list_of_set new)"
    by (rule map_cong) auto
  show ?thesis
  proof (cases "filter (\<lambda>key. key |\<notin>| ?up) (list_of_set new) = []")
    case True
    then have "\<forall>key \<in> set (list_of_set new). key |\<in>| ?up"
      by (simp add: filter_empty_conv)
    then have "map (\<lambda>key. key @ '' | '' @ ''ok'') (list_of_set new)
      = map (\<lambda>key. key @ '' | '' @ (if key |\<in>| ?up then ''ok'' else ''update_failed''))
          (list_of_set new)"
      by (intro map_cong) auto
    with True show ?thesis
      by (simp add: verify_update_def Let_def log_all_file)
  next
    case False
    then show ?thesis
      using save_keys_send_result_file [of stamp "list_of_set new" ?f d] same
      by (simp add: verify_update_def Let_def)
  qed
qed

text \<open>
  C6. When the fetch of the remote configuration succeeds, the send worker of key pool A
  computes the keys of the batch that the remote list does not hold. With none, it
  returns \<open>ok\<close> and neither puts nor logs anything. Otherwise it puts the merged list, the
  remote keys together with the keys of the batch; when the put is answered with status
  200 and a configuration, every new key is logged on its own as \<open>ok\<close> (in the echoed list)
  or \<open>update_failed\<close> (not in it), and the result is \<open>ok\<close> when all new keys are in the
  echoed list and \<open>update_failed\<close> when not. The result is \<open>ok\<close> only if the put was answered
  so and all new keys are in the echoed list.
\<close>

theorem send_balancer_worker_merge:
  assumes "get_config w = Response 200 (Json (ConfigObject entry))"
  shows "(new_keys (api_keys_of entry) keys = {||} \<longrightarrow>
            send_balancer_worker w keys d
              = \<lparr>result_code = ''ok'', put_payload = None, files_after = d\<rparr>)
    \<and> (new_keys (api_keys_of entry) keys \<noteq> {||} \<longrightarrow>
         (\<exists>payload. put_payload (send_balancer_worker w keys d) = Some payload
            \<and> fset_of_list payload = fset_of_list (api_keys_of entry) |\<union>| fset_of_list keys
            \<and> (\<forall>echoed. put_config w payload = Response 200 (Json (ConfigObject echoed)) \<longrightarrow>
                 result_code (send_balancer_worker w keys d)
                   = (if new_keys (api_keys_of entry) keys |\<subseteq>| fset_of_list (api_keys_of echoed)
                      then ''ok'' else ''update_failed'')
                 \<and> keys_send_file (files_after (send_balancer_worker w keys d))
                   = keys_send_file d
                     @ map (\<lambda>key. key @ '' | '' @
                             (if key |\<in>| fset_of_list (api_keys_of echoed) then ''ok''
                              else ''update_failed''))
                         (list_of_set (new_keys (api_keys_of entry) keys)))
            \<and> (result_code (send_balancer_worker w keys d) = ''ok'' \<longrightarrow>
                 (\<exists>echoed. put_config w payload = Response 200 (Json (ConfigObject echoed))
                    \<and> new_keys (api_keys_of entry) keys |\<subseteq>| fset_of_list (api_keys_of echoed)))))"
proof (intro conjI impI)
  assume "new_keys (api_keys_of entry) keys = {||}"
  with assms show "send_balancer_worker w keys d
      = \<lparr>result_code = ''ok'', put_payload = None, files_after = d\<rparr>"
    by (simp add: send_balancer_worker_def merge_keys_new)
next
  let ?new = "new_keys (api_keys_of entry) keys"
  let ?payload = "list_of_set (fset_of_list (api_keys_of entry) |\<union>| fset_of_list keys)"
  let ?R = "send_balancer_worker w keys d"
  assume ne: "?new \<noteq> {||}"
  then have card: "fcard ?new \<noteq> 0" by (simp add: fcard_0_eq)
  have R: "?R =
    (case put_config w ?payload of
       Fails e \<Rightarrow> \<lparr>result_code = error_code e, put_payload = Some ?payload,
                    files_after = log_all (strftime_now w) keys (error_code e) d\<rparr>
     | Response update_status update_body \<Rightarrow>
         if update_status \<noteq> 200
         then \<lparr>result_code = ''update_config_failed_not_200'', put_payload = Some ?payload,
               files_after = d\<rparr>
         else (case update_body of
            NotJson \<Rightarrow> \<lparr>result_code = ''json_decode_error'', put_payload = Some ?payload,
                        files_after = log_all (strftime_now w) keys ''json_decode_error'' d\<rparr>
          | Json ConfigMalformed \<Rightarrow>
              \<lparr>result_code = ''exception'', put_payload = Some ?payload,
               files_after = log_all (strftime_now w) keys ''exception'' d\<rparr>
          | Json (ConfigObject updated) \<Rightarrow>
              verify_update (strftime_now w) ?payload ?new updated d))"
    using assms card by (simp add: send_balancer_worker_def merge_keys_new Let_def)
  have p: "put_payload ?R = Some ?payload"
    unfolding R
    by (simp add: verify_update_result
        split: response.splits body.splits config_json.splits)
  have s: "fset_of_list ?payload = fset_of_list (api_keys_of entry) |\<union>| fset_of_list keys"
    by (simp add: list_of_set_def)
  have e: "\<forall>echoed. put_config w ?payload = Response 200 (Json (ConfigObject echoed)) \<longrightarrow>
      result_code ?R = (if ?new |\<subseteq>| fset_of_list (api_keys_of echoed)
                        then ''ok'' else ''update_failed'')
      \<and> keys_send_file (files_after ?R)
          = keys_send_file d
            @ map (\<lambda>key. key @ '' | '' @
                    (if key |\<in>| fset_of_list (api_keys_of echoed) then ''ok''
                     else ''update_failed''))
                (list_of_set ?new)"
    unfolding R by (simp add: verify_update_result verify_update_file)
  have o: "result_code ?R = ''ok'' \<longrightarrow>
      (\<exists>echoed. put_config w ?payload = Response 200 (Json (ConfigObject echoed))
         \<and> ?new |\<subseteq>| fset_of_list (api_keys_of echoed))"
    unfolding R
    by (auto simp: verify_update_result error_code_def
        split: response.splits body.splits config_json.splits req_error.splits if_splits)
  from p s e o show "\<exists>payload. put_payload ?R = Some payload
      \<and> fset_of_list payload = fset_of_list (api_keys_of entry) |\<union>| fset_of_list keys
      \<and> (\<forall>echoed. put_config w payload = Response 200 (Json (ConfigObject echoed)) \<longrightarrow>
           result_code ?R = (if ?new |\<subseteq>| fset_of_list (api_keys_of echoed)
                             then ''ok'' else ''update_failed'')
           \<and> keys_send_file (files_after ?R)
               = keys_send_file d
                 @ map (\<lambda>key. key @ '' | '' @
                         (if key |\<in>| fset_of_list (api_keys_of echoed) then ''ok''
                          else ''update_failed''))
                     (list_of_set ?new))
      \<and> (result_code ?R = ''ok'' \<longrightarrow>
           (\<exists>echoed. put_config w payload = Response 200 (Json (ConfigObject echoed))
              \<and> ?new |\<subseteq>| fset_of_list (api_keys_of echoed)))"
    by blast
qed

lemma world_merge_answers:
  "get_config world_merge = Response 200 (Json (ConfigObject (Some [key1, key2])))"
  "put_config world_merge payload = Response 200 (Json (ConfigObject (Some [key1, key2])))"
  by (simp_all add: world_merge_def world0_def)

lemma merge_examples:
  "new_keys (api_keys_of (Some [key1, key2])) [key2, key3] = {|key3|}"
  "new_keys (api_keys_of (Some [key1, key2])) [key2] = {||}"
  "{|key3|} \<noteq> {||}"
  "\<not> {|key3|} |\<subseteq>| fset_of_list (api_keys_of (Some [key1, key2]))"
  "key3 |\<notin>| fset_of_list (api_keys_of (Some [key1, key2]))"
  "list_of_set {|key3|} = [key3]"
  "fset_of_list (api_keys_of (Some [key1, key2])) |\<union>| fset_of_list [key2, key3]
     = {|key1, key2, key3|}"
  "keys_send_file disk0 = []"
  by code_simp+

theorem send_balancer_worker_merge_witness:
  "(\<exists>payload. put_payload (send_balancer_worker world_merge [key2, key3] disk0) = Some payload
      \<and> fset_of_list payload = {|key1, key2, key3|})
   \<and> result_code (send_balancer_worker world_merge [key2, key3] disk0) = ''update_failed''
   \<and> keys_send_file (files_after (send_balancer_worker world_merge [key2, key3] disk0))
       = [key3 @ '' | update_failed'']
   \<and> send_balancer_worker world_merge [key2] disk0
       = \<lparr>result_code = ''ok'', put_payload = None, files_after = disk0\<rparr>"
proof -
  from send_balancer_worker_merge [OF world_merge_answers(1), of "[key2, key3]" disk0]
  obtain payload where
    p: "put_payload (send_balancer_worker world_merge [key2, key3] disk0) = Some payload"
    and s: "fset_of_list payload = {|key1, key2, key3|}"
    and e: "\<forall>echoed. put_config world_merge payload = Response 200 (Json (ConfigObject echoed)) \<longrightarrow>
      result_code (send_balancer_worker world_merge [key2, key3] disk0)
        = (if {|key3|} |\<subseteq>| fset_of_list (api_keys_of echoed) then ''ok'' else ''update_failed'')
      \<and> keys_send_file (files_after (send_balancer_worker world_merge [key2, key3] disk0))
        = keys_send_file disk0
          @ map (\<lambda>key. key @ '' | '' @
                  (if key |\<in>| fset_of_list (api_keys_of echoed) then ''ok''
                   else ''update_failed''))
              (list_of_set {|key3|})"
    unfolding merge_examples by (auto simp: merge_examples)
  from e world_merge_answers(2) [of payload]
  have r: "result_code (send_balancer_worker world_merge [key2, key3] disk0) = ''update_failed''"
    and f: "keys_send_file (files_after (send_balancer_worker world_merge [key2, key3] disk0))
       = [key3 @ '' | update_failed'']"
    by (simp_all add: merge_examples)
  from send_balancer_worker_merge [OF world_merge_answers(1), of "[key2]" disk0]
  have "send_balancer_worker world_merge [key2] disk0
       = \<lparr>result_code = ''ok'', put_payload = None, files_after = disk0\<rparr>"
    by (simp add: merge_examples)
  with p s r f show ?thesis by blast
qed

section \<open>Query normalisation\<close>

lemma split_ws_Nil_iff: "split_ws s = [] \<longleftrightarrow> list_all is_space s"
  by (induction s) (auto split: list.splits)

lemma split_ws_space_append:
  "is_space c \<Longrightarrow> split_ws (a @ c # b) = split_ws a @ split_ws b"
proof (induction a)
  case Nil
  then show ?case by simp
next
  case (Cons x a)
  show ?case
  proof (cases "is_space x")
    case True
    with Cons show ?thesis by simp
  next
    case False
    show ?thesis
    proof (cases a)
      case Nil
      with False Cons.prems show ?thesis by simp
    next
      case (Cons y a')
      show ?thesis
      proof (cases "is_space y")
        case True
        with False Cons Cons.IH Cons.prems show ?thesis by simp
      next
        case ny: False
        then have "\<not> list_all is_space a" using Cons by simp
        then have "split_ws a \<noteq> []" unfolding split_ws_Nil_iff .
        with False ny Cons Cons.IH Cons.prems show ?thesis
          by (auto split: list.splits)
      qed
    qed
  qed
qed

lemma split_ws_spaces_append:
  "ws \<noteq> [] \<Longrightarrow> list_all is_space ws \<Longrightarrow> split_ws (a @ ws @ b) = split_ws a @ split_ws b"
proof (induction ws arbitrary: a)
  case Nil
  then show ?case by simp
next
  case (Cons c ws)
  show ?case
  proof (cases "ws = []")
    case True
    with Cons.prems show ?thesis by (simp add: split_ws_space_append)
  next
    case False
    have "split_ws ((a @ [c]) @ ws @ b) = split_ws (a @ [c]) @ split_ws b"
      using Cons.IH [OF False, of "a @ [c]"] Cons.prems by simp
    moreover have "split_ws (a @ [c]) = split_ws a"
      using split_ws_space_append [of c a "[]"] Cons.prems by simp
    ultimately show ?thesis by simp
  qed
qed

lemma split_ws_trailing: "list_all is_space ws \<Longrightarrow> split_ws (a @ ws) = split_ws a"
proof (cases "ws = []")
  case True
  then show ?thesis by simp
next
  case False
  assume "list_all is_space ws"
  with False split_ws_spaces_append [of ws a "[]"] show ?thesis by simp
qed

lemma split_ws_leading: "list_all is_space ws \<Longrightarrow> split_ws (ws @ b) = split_ws b"
  by (induction ws) auto

lemma split_ws_plain:
  "t \<noteq> [] \<Longrightarrow> list_all (\<lambda>c. \<not> is_space c) t \<Longrightarrow> split_ws t = [t]"
proof (induction t)
  case Nil
  then show ?case by simp
next
  case (Cons c t)
  then show ?case by (cases t) auto
qed

lemma well_spaced_tokens: "well_spaced ps \<Longrightarrow> p \<in> set ps \<Longrightarrow> token (fst p)"
  by (induction ps rule: well_spaced.induct) auto

lemma token_split_ws: "token t \<Longrightarrow> split_ws t \<noteq> []"
proof -
  assume "token t"
  then have "t \<noteq> [] \<and> \<not> is_space (hd t)"
    by (cases t) (auto simp: token_def plain_token_def quoted_token_def is_space_def)
  then have "\<not> list_all is_space t" by (cases t) auto
  then show ?thesis unfolding split_ws_Nil_iff .
qed

lemma split_ws_layout:
  "well_spaced ps \<Longrightarrow> split_ws (layout ps) = concat (map (\<lambda>p. split_ws (fst p)) ps)"
proof (induction ps rule: well_spaced.induct)
  case 1
  then show ?case by simp
next
  case (2 t ws)
  then show ?case by (simp add: split_ws_trailing)
next
  case (3 t ws p rest)
  then show ?case by (simp add: split_ws_spaces_append)
qed

lemma join_append:
  "xs \<noteq> [] \<Longrightarrow> ys \<noteq> [] \<Longrightarrow> join sep (xs @ ys) = join sep xs @ sep @ join sep ys"
proof (induction sep xs rule: join.induct)
  case (1 sep)
  then show ?case by simp
next
  case (2 sep x)
  then show ?case by (cases ys) simp_all
next
  case (3 sep x y ys)
  then show ?case by simp
qed

lemma join_concat:
  "\<forall>xs \<in> set xss. xs \<noteq> [] \<Longrightarrow> join sep (concat xss) = join sep (map (join sep) xss)"
proof (induction xss)
  case Nil
  then show ?case by simp
next
  case (Cons xs xss)
  show ?case
  proof (cases xss)
    case Nil
    then show ?thesis by simp
  next
    case (Cons ys yss)
    with Cons.prems have "concat xss \<noteq> []" and "xs \<noteq> []" by auto
    with Cons.IH Cons.prems Cons show ?thesis by (simp add: join_append)
  qed
qed

lemma join_Cons_head: "join sep ((c # w) # ws) = c # join sep (w # ws)"
  by (cases ws) simp_all

lemma squeeze_space: "is_space c \<Longrightarrow> squeeze (c # s) = squeeze s"
  by (simp add: squeeze_def)

lemma is_space_simps: "\<not> is_space dquote" "is_space (CHR 0x20)"
  by (simp_all add: is_space_def)

lemma spaces_no_quote: "list_all is_space u \<Longrightarrow> filter (\<lambda>x. x = dquote) u = []"
proof (induction u)
  case Nil
  then show ?case by simp
next
  case (Cons a u)
  then have "a \<noteq> dquote" using is_space_simps(1) by auto
  with Cons show ?case by simp
qed

lemma squeeze_Cons:
  assumes "\<not> is_space c"
  shows "squeeze (c # s) =
    (if list_all is_space s then [c]
     else if is_space (hd s) then c # CHR 0x20 # squeeze s
     else c # squeeze s)"
proof (cases "list_all is_space s")
  case True
  then have e: "split_ws s = []" by (simp add: split_ws_Nil_iff)
  from True have "s = [] \<or> is_space (hd s)" by (cases s) simp_all
  with assms e have "split_ws (c # s) = [[c]]" by simp
  with True show ?thesis by (simp add: squeeze_def)
next
  case False
  then have ne: "split_ws s \<noteq> []" by (simp add: split_ws_Nil_iff)
  then obtain w ws where w: "split_ws s = w # ws" by (cases "split_ws s") auto
  from False have s: "s \<noteq> []" by auto
  show ?thesis
  proof (cases "is_space (hd s)")
    case True
    with assms s w have "split_ws (c # s) = [c] # w # ws" by simp
    with False True w show ?thesis by (simp add: squeeze_def)
  next
    case nh: False
    with assms s w have "split_ws (c # s) = (c # w) # ws" by simp
    with False nh w show ?thesis by (simp add: squeeze_def join_Cons_head)
  qed
qed


lemma squeeze_last:
  "s \<noteq> [] \<Longrightarrow> \<not> is_space (last s) \<Longrightarrow> squeeze s \<noteq> [] \<and> last (squeeze s) = last s"
proof (induction s)
  case Nil
  then show ?case by simp
next
  case (Cons c s)
  show ?case
  proof (cases "s = []")
    case True
    with Cons.prems show ?thesis by (simp add: squeeze_Cons)
  next
    case False
    with Cons have ih: "squeeze s \<noteq> []" "last (squeeze s) = last s" by simp_all
    from False have "last s \<in> set s" by simp
    moreover from False Cons.prems have "\<not> is_space (last s)" by simp
    ultimately have na: "\<not> list_all is_space s" unfolding list_all_iff by blast
    show ?thesis
    proof (cases "is_space c")
      case True
      with ih False show ?thesis by (simp add: squeeze_space)
    next
      case nc: False
      from squeeze_Cons [OF nc, of s] na
      have "squeeze (c # s) = c # CHR 0x20 # squeeze s \<or> squeeze (c # s) = c # squeeze s"
        by (simp split: if_splits)
      with ih False show ?thesis by auto
    qed
  qed
qed

lemma squeeze_quotes:
  "filter (\<lambda>x. x = dquote) (squeeze s) = filter (\<lambda>x. x = dquote) s"
proof (induction s)
  case Nil
  then show ?case by (simp add: squeeze_def)
next
  case (Cons c s)
  show ?case
  proof (cases "is_space c")
    case True
    then have "c \<noteq> dquote" using is_space_simps(1) by auto
    with True Cons show ?thesis by (simp add: squeeze_space)
  next
    case nc: False
    show ?thesis
    proof (cases "list_all is_space s")
      case True
      with nc spaces_no_quote [OF True] show ?thesis by (simp add: squeeze_Cons)
    next
      case False
      with nc Cons show ?thesis by (simp add: squeeze_Cons)
    qed
  qed
qed

lemma squeeze_plain: "plain_token t \<Longrightarrow> squeeze t = t"
  by (simp add: plain_token_def squeeze_def split_ws_plain)

lemma squeeze_quoted:
  assumes "quoted_token t"
  shows "\<exists>b. squeeze t = dquote # b @ [dquote] \<and> dquote \<notin> set b"
proof -
  from assms obtain u where t: "t = dquote # u" and u: "u \<noteq> []" "last u = dquote"
    and b: "dquote \<notin> set (butlast u)"
    by (cases t) (auto simp: quoted_token_def split: if_splits)
  have ns: "\<not> is_space dquote" by (simp add: is_space_def)
  from squeeze_Cons [OF ns, of u] obtain m where m: "squeeze t = dquote # m"
    unfolding t by (auto split: if_splits)
  have "u = butlast u @ [dquote]"
    using u by (metis append_butlast_last_id)
  then have "filter (\<lambda>x. x = dquote) u = filter (\<lambda>x. x = dquote) (butlast u @ [dquote])"
    by simp
  also have "\<dots> = [dquote]" using b by (auto simp: filter_empty_conv)
  finally have fu: "filter (\<lambda>x. x = dquote) u = [dquote]" .
  have "filter (\<lambda>x. x = dquote) (squeeze t) = [dquote, dquote]"
    unfolding squeeze_quotes t using fu by simp
  with m have fm: "filter (\<lambda>x. x = dquote) m = [dquote]" by simp
  then have mne: "m \<noteq> []" by auto
  have "last (squeeze t) = dquote"
    using squeeze_last [of t] t u ns by simp
  with m mne have lm: "last m = dquote" by simp
  have mm: "m = butlast m @ [dquote]"
    using mne lm by (metis append_butlast_last_id)
  have "filter (\<lambda>x. x = dquote) (butlast m @ [dquote]) = [dquote]"
    using fm mm by simp
  then have "filter (\<lambda>x. x = dquote) (butlast m) = []" by simp
  then have "dquote \<notin> set (butlast m)" by (auto simp: filter_empty_conv)
  moreover have "squeeze t = dquote # butlast m @ [dquote]"
    using m mm by simp
  ultimately show ?thesis by blast
qed

lemma squeeze_canonical: "token t \<Longrightarrow> canonical (squeeze t)"
proof -
  assume "token t"
  then consider "plain_token t" | "quoted_token t" by (auto simp: token_def)
  then show ?thesis
  proof cases
    case 1
    then have "CHR 0x20 \<notin> set t"
      by (auto simp: plain_token_def list_all_iff is_space_def)
    with 1 show ?thesis by (simp add: squeeze_plain canonical_def plain_token_def)
  next
    case 2
    from squeeze_quoted [OF this] show ?thesis by (auto simp: canonical_def)
  qed
qed

lemma span_until:
  "y \<notin> set xs \<Longrightarrow> takeWhile (\<lambda>x. x \<noteq> y) (xs @ y # r) = xs"
  "y \<notin> set xs \<Longrightarrow> dropWhile (\<lambda>x. x \<noteq> y) (xs @ y # r) = y # r"
  by (induction xs) auto

lemma span_all:
  "y \<notin> set xs \<Longrightarrow> takeWhile (\<lambda>x. x \<noteq> y) xs = xs"
  "y \<notin> set xs \<Longrightarrow> dropWhile (\<lambda>x. x \<noteq> y) xs = []"
  by (induction xs) auto

lemma tokenize_quoted:
  assumes "dquote \<notin> set b"
  shows "tokenize (dquote # b @ dquote # r) = (dquote # b @ [dquote]) # tokenize r"
proof -
  from assms show ?thesis by (simp add: span_until)
qed

lemma tokenize_plain:
  assumes "c \<noteq> []" and "CHR 0x20 \<notin> set c" and "hd c \<noteq> dquote"
  shows "tokenize (c @ CHR 0x20 # r) = c # tokenize r" and "tokenize c = [c]"
proof -
  from assms obtain x xs where c: "c = x # xs" by (cases c) auto
  with assms have x: "x \<noteq> dquote" "x \<noteq> CHR 0x20" and xs: "CHR 0x20 \<notin> set xs" by auto
  show "tokenize (c @ CHR 0x20 # r) = c # tokenize r"
    using x xs c by (simp add: span_until)
  show "tokenize c = [c]" using x xs c by (simp add: span_all)
qed

lemma tokenize_canonical:
  assumes "canonical c"
  shows "tokenize (c @ CHR 0x20 # r) = c # tokenize r" and "tokenize c = [c]"
proof -
  from assms consider "c \<noteq> [] \<and> CHR 0x20 \<notin> set c \<and> hd c \<noteq> dquote"
    | b where "c = dquote # b @ [dquote]" "dquote \<notin> set b"
    by (auto simp: canonical_def)
  then have "tokenize (c @ CHR 0x20 # r) = c # tokenize r \<and> tokenize c = [c]"
  proof cases
    case 1
    then show ?thesis by (simp add: tokenize_plain)
  next
    case 2
    from tokenize_quoted [OF 2(2), of "CHR 0x20 # r"] tokenize_quoted [OF 2(2), of "[]"] 2(1)
    show ?thesis by simp
  qed
  then show "tokenize (c @ CHR 0x20 # r) = c # tokenize r" and "tokenize c = [c]" by simp_all
qed

lemma tokenize_join:
  "\<forall>c \<in> set cs. canonical c \<Longrightarrow> tokenize (join [CHR 0x20] cs) = cs"
proof (induction "[CHR 0x20]" cs rule: join.induct)
  case 1
  then show ?case by simp
next
  case (2 x)
  then show ?case by (simp add: tokenize_canonical)
next
  case (3 x y ys)
  then show ?case by (simp add: tokenize_canonical del: tokenize.simps)
qed

lemma parts_of_layout:
  assumes "well_spaced ps" and "list_all is_space lead"
  shows "tokenize (join [CHR 0x20] (split_ws (lead @ layout ps))) = map (\<lambda>p. squeeze (fst p)) ps"
proof -
  have "split_ws (lead @ layout ps) = concat (map (\<lambda>p. split_ws (fst p)) ps)"
    using assms by (simp add: split_ws_leading split_ws_layout)
  moreover have "\<forall>xs \<in> set (map (\<lambda>p. split_ws (fst p)) ps). xs \<noteq> []"
    using well_spaced_tokens [OF assms(1)] token_split_ws by auto
  ultimately have "join [CHR 0x20] (split_ws (lead @ layout ps))
      = join [CHR 0x20] (map (join [CHR 0x20]) (map (\<lambda>p. split_ws (fst p)) ps))"
    by (simp only: join_concat)
  also have "\<dots> = join [CHR 0x20] (map (\<lambda>p. squeeze (fst p)) ps)"
    by (simp add: squeeze_def comp_def)
  finally have "tokenize (join [CHR 0x20] (split_ws (lead @ layout ps)))
      = tokenize (join [CHR 0x20] (map (\<lambda>p. squeeze (fst p)) ps))"
    by simp
  moreover have "\<forall>c \<in> set (map (\<lambda>p. squeeze (fst p)) ps). canonical c"
    using well_spaced_tokens [OF assms(1)] squeeze_canonical by auto
  ultimately show ?thesis by (simp only: tokenize_join)
qed

lemma sort_mset_eq:
  fixes xs ys :: "string list"
  assumes "mset xs = mset ys"
  shows "sort xs = sort ys"
  by (rule properties_for_sort) (simp_all add: assms)

lemma sorted_bucket:
  "mset parts = mset parts' \<Longrightarrow> sort (parts_in b parts) = sort (parts_in b parts')"
  by (rule sort_mset_eq) (simp add: parts_in_def)

text \<open>
  C5. Two queries written from the same multiset of tokens (quoted phrases, plain terms
  and qualifiers), in any order and with any whitespace before, between and after the
  tokens, have the same normal form.
\<close>

theorem normalize_query_order_whitespace:
  assumes "well_spaced ps" and "well_spaced ps'"
    and "list_all is_space lead" and "list_all is_space lead'"
    and "mset (map fst ps) = mset (map fst ps')"
  shows "normalize_query (lead @ layout ps) = normalize_query (lead' @ layout ps')"
proof -
  let ?parts = "map (\<lambda>p. squeeze (fst p)) ps"
  let ?parts' = "map (\<lambda>p. squeeze (fst p)) ps'"
  have "mset (map squeeze (map fst ps)) = mset (map squeeze (map fst ps'))"
    using assms(5) by (metis mset_map)
  then have m: "mset ?parts = mset ?parts'" by (simp add: comp_def)
  have p: "tokenize (join [CHR 0x20] (split_ws (lead @ layout ps))) = ?parts"
    using assms(1,3) by (rule parts_of_layout)
  have p': "tokenize (join [CHR 0x20] (split_ws (lead' @ layout ps'))) = ?parts'"
    using assms(2,4) by (rule parts_of_layout)
  show ?thesis
    unfolding normalize_query_def Let_def p p'
    by (simp only: sorted_bucket [OF m])
qed

lemma query_examples:
  "well_spaced query_a" "well_spaced query_b"
  by (simp_all add: query_a_def query_b_def token_def plain_token_def quoted_token_def
      is_space_def)

lemma query_tokens: "mset (map fst query_a) = mset (map fst query_b)"
  by (simp add: query_a_def query_b_def)

theorem normalize_query_order_whitespace_witness:
  "normalize_query ([CHR 0x20] @ layout query_a) = normalize_query ([] @ layout query_b)"
  using normalize_query_order_whitespace
      [OF query_examples _ _ query_tokens, of "[CHR 0x20]" "[]"]
  by (simp add: is_space_def)

section \<open>Credential extraction\<close>

lemma occurs_at_Suc: "occurs_at (c # cs) key (Suc i) = occurs_at cs key i"
  by (simp add: occurs_at_def)

lemma occurs_at_0: "occurs_at s key 0 = startswith s key"
  by (simp add: occurs_at_def)

lemma find_str_first:
  "find_str s p = Some i \<Longrightarrow> occurs_at s p i \<and> (\<forall>j<i. \<not> occurs_at s p j)"
proof (induction s arbitrary: i)
  case Nil
  then show ?case by (simp add: occurs_at_def startswith_def split: if_splits)
next
  case (Cons c cs)
  show ?case
  proof (cases "startswith (c # cs) p")
    case True
    with Cons.prems show ?thesis by (simp add: occurs_at_0)
  next
    case False
    with Cons.prems obtain k where k: "find_str cs p = Some k" and i: "i = Suc k"
      by (auto split: option.splits)
    from Cons.IH [OF k] have o: "occurs_at cs p k" and n: "\<forall>j<k. \<not> occurs_at cs p j"
      by simp_all
    have "\<not> occurs_at (c # cs) p j" if "j < Suc k" for j
    proof (cases j)
      case 0
      with False show ?thesis by (simp add: occurs_at_0)
    next
      case (Suc j')
      with that n show ?thesis by (simp add: occurs_at_Suc)
    qed
    with o i show ?thesis by (simp add: occurs_at_Suc)
  qed
qed

lemma occurs_find_str: "occurs_at s p i \<Longrightarrow> \<exists>k. find_str s p = Some k"
proof (induction s arbitrary: i)
  case Nil
  then show ?case by (simp add: occurs_at_def startswith_def)
next
  case (Cons c cs)
  show ?case
  proof (cases "startswith (c # cs) p")
    case True
    then show ?thesis by simp
  next
    case False
    with Cons.prems obtain i' where "i = Suc i'"
      by (cases i) (simp_all add: occurs_at_0)
    with Cons.prems have "occurs_at cs p i'" by (simp add: occurs_at_Suc)
    from Cons.IH [OF this] False show ?thesis by auto
  qed
qed

lemma extract_occurs:
  "key \<in> set (extract_keys_from_content s) \<Longrightarrow> length key = 39 \<and> (\<exists>i. occurs_at s key i)"
proof (induction s rule: extract_keys_from_content.induct)
  case 1
  then show ?case by simp
next
  case (2 c cs)
  show ?case
  proof (cases "match_here (c # cs)")
    case True
    with "2.prems" consider "key = take 39 (c # cs)"
      | "key \<in> set (extract_keys_from_content (drop 38 cs))" by auto
    then show ?thesis
    proof cases
      case 1
      from True have "39 \<le> length (c # cs)" by (simp add: match_here_def)
      with 1 have "length key = 39" by simp
      moreover from 1 \<open>length key = 39\<close> have "occurs_at (c # cs) key 0"
        by (simp add: occurs_at_0 startswith_def)
      ultimately show ?thesis by blast
    next
      case k: 2
      from "2.IH"(1) [OF True k] obtain i where l: "length key = 39"
        and o: "occurs_at (drop 38 cs) key i" by blast
      have "drop (Suc (i + 38)) (c # cs) = drop (i + 38) cs"
        by (rule drop_Suc_Cons)
      also have "\<dots> = drop i (drop 38 cs)"
        by (simp only: drop_drop)
      finally have "occurs_at (c # cs) key (Suc (i + 38))"
        using o by (simp only: occurs_at_def)
      with l show ?thesis by blast
    qed
  next
    case False
    with "2.prems" have "key \<in> set (extract_keys_from_content cs)" by simp
    from "2.IH"(2) [OF False this] obtain i where "length key = 39" "occurs_at cs key i"
      by blast
    then have "length key = 39 \<and> occurs_at (c # cs) key (Suc i)"
      by (simp add: occurs_at_Suc)
    then show ?thesis by blast
  qed
qed

lemma count_list_distinct:
  "distinct xs \<Longrightarrow> count_list xs x = (if x \<in> set xs then 1 else 0)"
  by (induction xs) auto

lemma candidate_keys_set:
  "set (candidate_keys content)
     = {key \<in> set (extract_keys_from_content content). \<not> is_placeholder content key}"
  by (auto simp: candidate_keys_def list_of_set_def fset_of_list.rep_eq)

lemma candidate_keys_distinct: "distinct (candidate_keys content)"
  by (simp add: candidate_keys_def list_of_set_def sorted_list_of_fset.rep_eq)

text \<open>
  C3, as the code has it. The extraction gives each credential at most once, and only
  credentials that the pattern matched. A matched credential has 39 characters and is
  kept exactly when the window of 45 characters that starts at the first place where its
  text stands in the content (the credential and the 6 characters after it) holds neither
  an ellipsis nor, in any letter case, \<open>YOUR_\<close>; it is then in the result exactly once,
  however many times it was matched.
\<close>

theorem candidate_keys_first_window:
  "distinct (candidate_keys content)
   \<and> set (candidate_keys content) \<subseteq> set (extract_keys_from_content content)
   \<and> (key \<in> set (extract_keys_from_content content) \<longrightarrow>
        length key = 39
        \<and> (\<exists>i. find_str content key = Some i \<and> first_occurrence content key i
              \<and> (key \<in> set (candidate_keys content)
                   \<longleftrightarrow> \<not> flagged (take 45 (drop i content)))
              \<and> count_list (candidate_keys content) key
                   = (if flagged (take 45 (drop i content)) then 0 else 1)))"
proof (intro conjI impI)
  show "distinct (candidate_keys content)" by (rule candidate_keys_distinct)
  show "set (candidate_keys content) \<subseteq> set (extract_keys_from_content content)"
    by (auto simp: candidate_keys_set)
next
  assume k: "key \<in> set (extract_keys_from_content content)"
  from extract_occurs [OF k] show "length key = 39" by simp
  from extract_occurs [OF k] obtain j where "occurs_at content key j" by blast
  from occurs_find_str [OF this] obtain i where f: "find_str content key = Some i" by blast
  from find_str_first [OF f] have fo: "first_occurrence content key i"
    by (simp add: first_occurrence_def list_all_iff)
  from f have p: "is_placeholder content key = flagged (take 45 (drop i content))"
    by (simp add: is_placeholder_def flagged_def Let_def)
  from k p have m: "key \<in> set (candidate_keys content) \<longleftrightarrow> \<not> flagged (take 45 (drop i content))"
    by (simp add: candidate_keys_set)
  have "count_list (candidate_keys content) key
      = (if flagged (take 45 (drop i content)) then 0 else 1)"
    using m by (simp add: count_list_distinct [OF candidate_keys_distinct])
  with f fo m show "\<exists>i. find_str content key = Some i \<and> first_occurrence content key i
      \<and> (key \<in> set (candidate_keys content) \<longleftrightarrow> \<not> flagged (take 45 (drop i content)))
      \<and> count_list (candidate_keys content) key
           = (if flagged (take 45 (drop i content)) then 0 else 1)"
    by blast
qed

lemma content_examples:
  "key1 \<in> set (extract_keys_from_content content_twice)"
  "find_str content_twice key1 = Some 4"
  "\<not> flagged (take 45 (drop 4 content_twice))"
  "key1 \<in> set (extract_keys_from_content content_placeholder)"
  "find_str content_placeholder key1 = Some 4"
  "flagged (take 45 (drop 4 content_placeholder))"
  by code_simp+

theorem candidate_keys_first_window_witness:
  "extract_keys_from_content content_twice = [key1, key1]
   \<and> count_list (candidate_keys content_twice) key1 = 1
   \<and> key1 \<in> set (candidate_keys content_twice)
   \<and> count_list (candidate_keys content_placeholder) key1 = 0
   \<and> key1 \<notin> set (candidate_keys content_placeholder)"
proof -
  have e: "extract_keys_from_content content_twice = [key1, key1]" by code_simp
  from candidate_keys_first_window [of content_twice key1] content_examples(1,2,3)
  have a: "count_list (candidate_keys content_twice) key1 = 1
      \<and> key1 \<in> set (candidate_keys content_twice)"
    by auto
  from candidate_keys_first_window [of content_placeholder key1] content_examples(4,5,6)
  have b: "count_list (candidate_keys content_placeholder) key1 = 0
      \<and> key1 \<notin> set (candidate_keys content_placeholder)"
    by auto
  from e a b show ?thesis by simp
qed

text \<open>
  The claim as written fails at two inputs. In the first a credential is matched twice,
  at index 4 followed at once by a placeholder text and at index 65 on its own: the second
  match is well formed and isolated (the 45 characters from its start and the 45
  characters after its end hold no marker), so that judging each match by its own window
  keeps the credential, under both readings of the window; the code gives nothing,
  because both matches are judged by the window at index 4, where the text of the
  credential first stands. In the second input the placeholder text starts seven
  characters after the credential: the 45 characters that follow the match hold \<open>YOUR_\<close>,
  so that the claim excludes the match; the code keeps the credential, because its window
  is the credential and the six characters after it.
\<close>

theorem candidate_keys_not_per_match:
  "extract_keys_from_content content_first_placeholder = [key1, key1]
   \<and> match_here (drop 65 content_first_placeholder)
   \<and> take 39 (drop 65 content_first_placeholder) = key1
   \<and> \<not> flagged (take 45 (drop 65 content_first_placeholder))
   \<and> \<not> flagged (take 45 (drop 104 content_first_placeholder))
   \<and> per_match_after content_first_placeholder = [key1]
   \<and> per_match_from content_first_placeholder = [key1]
   \<and> candidate_keys content_first_placeholder = []
   \<and> extract_keys_from_content content_far_placeholder = [key1]
   \<and> take 39 (drop 4 content_far_placeholder) = key1
   \<and> flagged (take 45 (drop 43 content_far_placeholder))
   \<and> \<not> flagged (take 45 (drop 4 content_far_placeholder))
   \<and> per_match_after content_far_placeholder = []
   \<and> candidate_keys content_far_placeholder = [key1]"
  by code_simp

end
